theory Spec2Isabelle
  imports Complex_Main
begin

section \<open>The dashboard's live feeds (ui/script.js)\<close>

text \<open>
  A JavaScript string is a \<^typ>\<open>string\<close>, one \<^typ>\<open>char\<close> per code unit (the code
  units up to \<open>0xFF\<close>; the code tests and writes none above). The handlers run to
  completion one after the other, so every handler is a function from the state it reads
  (the global arrays and the DOM nodes it looks up) to the state it leaves. A DOM lookup
  that finds nothing (\<open>getElementById\<close> returning \<open>null\<close>) is \<open>None\<close>. A field of a
  payload that may be absent is an option.
  Scrolling and styling that no claim reads are left out.
\<close>

subsection \<open>Constants\<close>

definition MAX_LOG_LINES :: nat where
  "MAX_LOG_LINES = 100"

definition MAX_PANEL_LINES :: nat where
  "MAX_PANEL_LINES = 20"

definition CHART_HISTORY_SIZE :: nat where
  "CHART_HISTORY_SIZE = 50"

subsection \<open>DOM nodes\<close>

text \<open>
  The \<open>div\<close> elements the handlers create: the \<open>id\<close> attribute (absent when never
  set), the class tokens, the text and the one style property the code sets.
\<close>

record element =
  el_id :: "string option"
  classList :: "string list"
  textContent :: string
  marginBottom :: string

definition createElement :: element where
  "createElement = \<lparr>el_id = None, classList = [], textContent = [], marginBottom = []\<rparr>"

text \<open>
  The child nodes of a container filled from markup: elements, and the text nodes
  (white space of the template) between them. \<open>children\<close> of the DOM counts the
  elements only, \<open>firstChild\<close> is the first node of either kind.
\<close>

datatype 'e node = Element 'e | TextNode string

fun isElement :: "'e node \<Rightarrow> bool" where
  "isElement (Element _) = True"
| "isElement (TextNode _) = False"

definition children :: "'e node list \<Rightarrow> 'e node list" where
  "children childNodes = filter isElement childNodes"

subsection \<open>updateAmbientLog\<close>

text \<open>
  A panel is the array the handler owns (\<open>visionLog\<close>, \<open>spokenLog\<close>) and the element
  it renders into. \<open>updateAmbientLog\<close> returns at once when the element is missing;
  otherwise it replaces the last line (\<open>isUpdate\<close> and a non-empty array) or pushes
  and shifts once when the array is longer than the bound, and renders one \<open>div\<close> per
  line. The bound is the module constant \<open>MAX_PANEL_LINES\<close>; it is the first argument
  here, and the listeners below pass the constant.
\<close>

record panel =
  el :: "element list option"
  logArray :: "string list"

definition renderLine :: "string \<Rightarrow> string \<Rightarrow> element" where
  "renderLine itemClass text =
     (let d = createElement\<lparr>textContent := text, marginBottom := ''0.5rem''\<rparr>
      in if itemClass \<noteq> [] then d\<lparr>classList := [itemClass]\<rparr> else d)"

text \<open>
  The statement pair \<open>arr.push(x); if (arr.length > max) arr.shift();\<close>, which the
  source writes out for the panel arrays and for the score log.
\<close>

definition pushShift :: "nat \<Rightarrow> 'a list \<Rightarrow> 'a \<Rightarrow> 'a list" where
  "pushShift maxLines arr x =
     (let pushed = arr @ [x] in if length pushed > maxLines then tl pushed else pushed)"

definition updateAmbientLog ::
  "nat \<Rightarrow> panel \<Rightarrow> string \<Rightarrow> string \<Rightarrow> bool \<Rightarrow> panel" where
  "updateAmbientLog maxPanelLines p newText itemClass isUpdate =
     (case el p of
        None \<Rightarrow> p
      | Some _ \<Rightarrow>
          let arr = (if isUpdate \<and> length (logArray p) > 0
                     then (logArray p)[length (logArray p) - 1 := newText]
                     else pushShift maxPanelLines (logArray p) newText)
          in \<lparr>el = Some (map (renderLine itemClass) arr), logArray = arr\<rparr>)"

subsection \<open>appendLog\<close>

text \<open>
  \<open>appendLog\<close> returns at once for a missing element. Otherwise
  \<open>insertAdjacentHTML('beforeend', html)\<close> adds the nodes the markup parses to (the
  argument \<open>html\<close> is that node list), and the loop removes the first child node while
  there are more child elements than the bound.
\<close>

fun removeFirstWhileOver :: "nat \<Rightarrow> 'e node list \<Rightarrow> 'e node list" where
  "removeFirstWhileOver maxLines [] = []"
| "removeFirstWhileOver maxLines (n # ns) =
     (if length (children (n # ns)) > maxLines then removeFirstWhileOver maxLines ns
      else n # ns)"

definition appendLog :: "nat \<Rightarrow> 'e node list option \<Rightarrow> 'e node list \<Rightarrow> 'e node list option" where
  "appendLog maxLogLines element html =
     (case element of
        None \<Rightarrow> None
      | Some childNodes \<Rightarrow> Some (removeFirstWhileOver maxLogLines (childNodes @ html)))"

subsection \<open>The listeners of the vision and spoken-word panels\<close>

text \<open>
  Both listeners call \<open>updateAmbientLog\<close> with three arguments, so \<open>itemClass\<close> is
  the empty string and \<open>isUpdate\<close> is false.
\<close>

definition vision_context :: "string \<Rightarrow> panel \<Rightarrow> panel" where
  "vision_context d_context visionLog = updateAmbientLog MAX_PANEL_LINES visionLog d_context [] False"

definition spoken_word_context :: "string \<Rightarrow> panel \<Rightarrow> panel" where
  "spoken_word_context d_context spokenLog = updateAmbientLog MAX_PANEL_LINES spokenLog d_context [] False"

subsection \<open>The audio transcript listener\<close>

text \<open>
  The payload \<open>{ context, session_id?, is_partial? }\<close>: an absent \<open>session_id\<close> is
  \<open>None\<close>, an absent \<open>is_partial\<close> is false.

  The listener looks its elements up with \<open>document.getElementById\<close>, so the state it
  works on is the document: a tree of elements, each with its attributes and own text
  (an \<^typ>\<open>element\<close>) and its child elements. \<open>getElementById\<close> returns the first
  element in document order that carries the id, or nothing. What the listener then does
  to the element it holds (\<open>textContent\<close>, \<open>classList.add\<close>, \<open>appendChild\<close>) happens
  to that element where it stands in the tree: \<open>updateById\<close> applies a change to the
  first element carrying an id. Setting \<open>textContent\<close> removes the children of the
  element. The transcript is the list of the child elements of \<open>#audio-context\<close>.

  The template string prints an absent \<open>session_id\<close> as \<open>undefined\<close>; the new element
  gets its id only when \<open>session_id\<close> is truthy (present and not empty). The last
  statement of the append branch scrolls the parent element; it comes after the append
  and changes nothing a claim reads.
\<close>

record audio_payload =
  d_context :: string
  session_id :: "string option"
  is_partial :: bool

datatype dom = Elem (attrs: element) (kids: "dom list")

fun getElementById :: "string \<Rightarrow> dom \<Rightarrow> dom option"
  and getElementByIdIn :: "string \<Rightarrow> dom list \<Rightarrow> dom option" where
  "getElementById key (Elem a ks) =
     (if el_id a = Some key then Some (Elem a ks) else getElementByIdIn key ks)"
| "getElementByIdIn key [] = None"
| "getElementByIdIn key (n # ns) =
     (case getElementById key n of Some found \<Rightarrow> Some found | None \<Rightarrow> getElementByIdIn key ns)"

fun updateById :: "string \<Rightarrow> (dom \<Rightarrow> dom) \<Rightarrow> dom \<Rightarrow> dom"
  and updateByIdIn :: "string \<Rightarrow> (dom \<Rightarrow> dom) \<Rightarrow> dom list \<Rightarrow> dom list" where
  "updateById key f (Elem a ks) =
     (if el_id a = Some key then f (Elem a ks) else Elem a (updateByIdIn key f ks))"
| "updateByIdIn key f [] = []"
| "updateByIdIn key f (n # ns) =
     (if getElementById key n \<noteq> None then updateById key f n # ns
      else n # updateByIdIn key f ns)"

definition sessionKey :: "string option \<Rightarrow> string" where
  "sessionKey sid = ''session-'' @ (case sid of None \<Rightarrow> ''undefined'' | Some s \<Rightarrow> s)"

definition classList_add :: "string \<Rightarrow> string list \<Rightarrow> string list" where
  "classList_add token cl = (if token \<in> set cl then cl else cl @ [token])"

definition setLiveText :: "string \<Rightarrow> dom \<Rightarrow> dom" where
  "setLiveText newText existingItem =
     Elem ((attrs existingItem)
             \<lparr>textContent := newText,
              classList := classList_add ''live-pulse'' (classList (attrs existingItem))\<rparr>) []"

definition appendChild :: "dom \<Rightarrow> dom \<Rightarrow> dom" where
  "appendChild child logContainer = Elem (attrs logContainer) (kids logContainer @ [child])"

definition newSessionDiv :: "audio_payload \<Rightarrow> dom" where
  "newSessionDiv d =
     Elem (createElement
             \<lparr>el_id := (case session_id d of
                          None \<Rightarrow> None
                        | Some s \<Rightarrow> if s \<noteq> [] then Some (sessionKey (session_id d)) else None),
              classList := [''audio-highlight''],
              textContent := d_context d\<rparr>) []"

definition audio_context :: "audio_payload \<Rightarrow> dom \<Rightarrow> dom" where
  "audio_context d document =
     (case getElementById ''audio-context'' document of
        None \<Rightarrow> document
      | Some logContainer \<Rightarrow>
          let key = sessionKey (session_id d);
              existingItem = getElementById key document
          in if is_partial d \<and> existingItem \<noteq> None
             then updateById key (setLiveText (d_context d)) document
             else updateById ''audio-context'' (appendChild (newSessionDiv d)) document)"

definition transcript :: "dom \<Rightarrow> dom list option" where
  "transcript document = map_option kids (getElementById ''audio-context'' document)"

text \<open>
  The document with the entries of the transcript taken out: what is left is every
  element that is not inside \<open>#audio-context\<close>. It serves to say that an id is
  carried by no element outside the transcript.
\<close>

definition withoutTranscript :: "dom \<Rightarrow> dom" where
  "withoutTranscript document =
     updateById ''audio-context'' (\<lambda>logContainer. Elem (attrs logContainer) []) document"

text \<open>
  What a lookup of one id finds before and after an element with another id is changed:
  the same element, or that element with the change made among its children.
\<close>

definition sameOrUpdated :: "string \<Rightarrow> (dom \<Rightarrow> dom) \<Rightarrow> dom \<Rightarrow> dom \<Rightarrow> bool" where
  "sameOrUpdated key f c c' = (c' = c \<or> c' = Elem (attrs c) (updateByIdIn key f (kids c)))"

text \<open>
  A page that holds \<open>#audio-context\<close> with the given entries and nothing else of
  interest, for the examples.
\<close>

definition pageWith :: "dom list \<Rightarrow> dom" where
  "pageWith es = Elem createElement [Elem (createElement\<lparr>el_id := Some ''audio-context''\<rparr>) es]"

text \<open>
  The identity rule as the specification words it (section 4.3), for comparison with
  the listener: without an id append; with the id of the last entry replace that entry's
  content; otherwise append.
\<close>

definition spec_identity_rule :: "audio_payload \<Rightarrow> dom list \<Rightarrow> dom list" where
  "spec_identity_rule d es =
     (case session_id d of
        None \<Rightarrow> es @ [newSessionDiv d]
      | Some s \<Rightarrow>
          if es \<noteq> [] \<and> el_id (attrs (last es)) = Some (sessionKey (Some s))
          then butlast es @ [Elem ((attrs (last es))\<lparr>textContent := d_context d\<rparr>) (kids (last es))]
          else es @ [newSessionDiv d])"

subsection \<open>Number.prototype.toFixed\<close>

text \<open>
  A finite JavaScript number is a real. \<open>x.toFixed(2)\<close> takes the sign off, and below
  \<open>10^21\<close> prints the integer \<open>n\<close> nearest to \<open>100 * x\<close> (the larger one of two) in
  decimal, padded with zeros to three digits, with a point before the last two. From
  \<open>10^21\<close> on it prints the number as \<open>String(x)\<close> does, which is the parameter
  \<open>numberToString\<close> here.
\<close>

definition digit :: "nat \<Rightarrow> char" where
  "digit n = ''0123456789'' ! n"

fun decimal :: "nat \<Rightarrow> string" where
  "decimal n = (if n < 10 then [digit n] else decimal (n div 10) @ [digit (n mod 10)])"

declare decimal.simps [simp del]

definition toFixed2 :: "(real \<Rightarrow> string) \<Rightarrow> real \<Rightarrow> string" where
  "toFixed2 numberToString x0 =
     (let s = (if x0 < 0 then ''-'' else []);
          x = \<bar>x0\<bar>
      in if x \<ge> 10 ^ 21 then s @ numberToString x
         else let n = nat \<lfloor>x * 100 + 1 / 2\<rfloor>;
                  m0 = decimal n;
                  m = (if length m0 \<le> 2 then replicate (3 - length m0) (CHR ''0'') @ m0 else m0);
                  k = length m
              in s @ take (k - 2) m @ ''.'' @ drop (k - 2) m)"

subsection \<open>The score listener\<close>

text \<open>
  The payload \<open>{ score, source, text }\<close>. Nothing checks it before the listener runs, so
  each field may be missing or of another type: \<open>d_score\<close> is \<open>None\<close> when \<open>score\<close> is
  not a number and \<open>d_text\<close> is \<open>None\<close> when \<open>text\<close> is not a string (then \<open>toFixed\<close>
  and \<open>substring\<close> are not functions and the call throws a \<open>TypeError\<close>); an absent
  \<open>source\<close> is printed as \<open>undefined\<close>. An event sent without a payload throws at the
  same places as a payload without fields.

  The state the listener touches: the two arrays of the chart, the chart (the number of
  \<open>update\<close> calls it has had, \<open>None\<close> before the drawer created it), the score log and
  the text of \<open>#graph-data-log\<close> (\<open>None\<close> when the element is not on the page). A
  listener either returns or throws; what it had written by then stays written, so both
  outcomes carry the state.
\<close>

record score_payload =
  d_score :: "real option"
  d_source :: "string option"
  d_text :: "string option"

record score_state =
  scoreLabels :: "string list"
  scoreData :: "string list"
  interestChart :: "nat option"
  graphLog :: "string list"
  graphDataLogEl :: "string option"

datatype 'a outcome = Returned 'a | Thrown 'a

fun stateAfter :: "'a outcome \<Rightarrow> 'a" where
  "stateAfter (Returned st) = st"
| "stateAfter (Thrown st) = st"

definition initial_score_state :: "string option \<Rightarrow> score_state" where
  "initial_score_state logEl =
     \<lparr>scoreLabels = [], scoreData = [], interestChart = None, graphLog = [],
      graphDataLogEl = logEl\<rparr>"

text \<open>
  The template literal of the log line; \<open>None\<close> when evaluating it throws.
\<close>

definition logLine :: "(real \<Rightarrow> string) \<Rightarrow> score_payload \<Rightarrow> string option" where
  "logLine numberToString d =
     (case d_score d of
        None \<Rightarrow> None
      | Some x \<Rightarrow>
          (case d_text d of
             None \<Rightarrow> None
           | Some t \<Rightarrow>
               Some (toFixed2 numberToString x @ '' - ''
                     @ (case d_source d of None \<Rightarrow> ''undefined'' | Some s \<Rightarrow> s)
                     @ '': '' @ take 30 t @ ''...'')))"

fun join :: "string \<Rightarrow> string list \<Rightarrow> string" where
  "join sep [] = []"
| "join sep [x] = x"
| "join sep (x # y # ys) = x @ sep @ join sep (y # ys)"

text \<open>
  The first half of the listener, statement by statement: push the label; push
  \<open>data.score.toFixed(2)\<close>, which throws when the score is not a number, the label
  already pushed; shift both arrays when the score array is over the bound; update the
  chart if there is one.
\<close>

definition recordScore :: "(real \<Rightarrow> string) \<Rightarrow> score_payload \<Rightarrow> score_state \<Rightarrow> score_state outcome" where
  "recordScore numberToString d st =
     (let st1 = st\<lparr>scoreLabels := scoreLabels st @ [[]]\<rparr>
      in case d_score d of
           None \<Rightarrow> Thrown st1
         | Some x \<Rightarrow>
             let st2 = st1\<lparr>scoreData := scoreData st1 @ [toFixed2 numberToString x]\<rparr>;
                 st3 = (if length (scoreData st2) > CHART_HISTORY_SIZE
                        then st2\<lparr>scoreLabels := tl (scoreLabels st2), scoreData := tl (scoreData st2)\<rparr>
                        else st2)
             in Returned (st3\<lparr>interestChart := map_option Suc (interestChart st3)\<rparr>))"

text \<open>
  The second half: build the log line (which may throw), push it, shift once over ten
  lines, and show the log if its element is on the page.
\<close>

definition updateScoreLog :: "(real \<Rightarrow> string) \<Rightarrow> score_payload \<Rightarrow> score_state \<Rightarrow> score_state outcome" where
  "updateScoreLog numberToString d st =
     (case logLine numberToString d of
        None \<Rightarrow> Thrown st
      | Some line \<Rightarrow>
          let log2 = pushShift 10 (graphLog st) line
          in Returned (st\<lparr>graphLog := log2,
                          graphDataLogEl := (case graphDataLogEl st of
                                               None \<Rightarrow> None
                                             | Some _ \<Rightarrow> Some (join [CHR 10] log2))\<rparr>))"

definition event_scored :: "(real \<Rightarrow> string) \<Rightarrow> score_payload \<Rightarrow> score_state \<Rightarrow> score_state outcome" where
  "event_scored numberToString d st =
     (case recordScore numberToString d st of
        Thrown st1 \<Rightarrow> Thrown st1
      | Returned st4 \<Rightarrow> updateScoreLog numberToString d st4)"

text \<open>
  The older entry point (the unnamed source file) records the score only when the chart
  exists; its score log is the same.
\<close>

definition event_scored_legacy :: "(real \<Rightarrow> string) \<Rightarrow> score_payload \<Rightarrow> score_state \<Rightarrow> score_state outcome" where
  "event_scored_legacy numberToString d st =
     (case interestChart st of
        None \<Rightarrow> updateScoreLog numberToString d st
      | Some _ \<Rightarrow>
          (case recordScore numberToString d st of
             Thrown st1 \<Rightarrow> Thrown st1
           | Returned st4 \<Rightarrow> updateScoreLog numberToString d st4))"

subsection \<open>sanitizeHTML and highlightMentions\<close>

text \<open>
  \<open>sanitizeHTML\<close> makes a \<open>div\<close>, sets its \<open>textContent\<close> and reads its \<open>innerHTML\<close>.
  Setting \<open>textContent\<close> replaces the children by one text node (by none for the empty
  string); \<open>innerHTML\<close> is the serialisation of the children, in which the data of a
  text node is escaped: \<open>&\<close>, the no-break space, \<open><\<close> and \<open>>\<close> become \<open>&amp;\<close>,
  \<open>&nbsp;\<close>, \<open>&lt;\<close> and \<open>&gt;\<close>. A child element of a \<open>string node\<close> list stands for
  its own markup.
\<close>

definition escapeChar :: "char \<Rightarrow> string" where
  "escapeChar c =
     (if c = CHR ''&'' then ''&amp;''
      else if c = CHR 0xA0 then ''&nbsp;''
      else if c = CHR ''<'' then ''&lt;''
      else if c = CHR ''>'' then ''&gt;''
      else [c])"

definition setTextContent :: "string \<Rightarrow> string node list" where
  "setTextContent str = (if str = [] then [] else [TextNode str])"

fun serializeNode :: "string node \<Rightarrow> string" where
  "serializeNode (Element markup) = markup"
| "serializeNode (TextNode data) = concat (map escapeChar data)"

definition innerHTML :: "string node list \<Rightarrow> string" where
  "innerHTML childNodes = concat (map serializeNode childNodes)"

definition sanitizeHTML :: "string \<Rightarrow> string" where
  "sanitizeHTML str = innerHTML (setTextContent str)"

text \<open>
  The regular expression \<open>/(nami|peepingnami)/gi\<close>: at each position \<open>nami\<close> is tried
  before \<open>peepingnami\<close>, letters compare without case (only a letter of the pattern in
  either case matches it), and the search goes on after a match. \<open>replace\<close> wraps every
  match in a \<open>span\<close>; \<open>test\<close> says whether there is one. \<open>toUpperCase\<close> is the
  upper case of the letters \<open>a\<close> to \<open>z\<close>, which is all that the pattern and the
  drawer names need.
\<close>

definition toUpperCase :: "char \<Rightarrow> char" where
  "toUpperCase c =
     (if 97 \<le> (of_char c :: nat) \<and> (of_char c :: nat) \<le> 122 then char_of (of_char c - 32 :: nat)
      else c)"

definition matchesAt :: "string \<Rightarrow> string \<Rightarrow> bool" where
  "matchesAt pattern s =
     (length pattern \<le> length s
      \<and> map toUpperCase (take (length pattern) s) = map toUpperCase pattern)"

fun replaceMentions :: "string \<Rightarrow> string" where
  "replaceMentions [] = []"
| "replaceMentions (c # cs) =
     (if matchesAt ''nami'' (c # cs)
      then ''<span class=\"highlight-word\">'' @ take 4 (c # cs) @ ''</span>''
             @ replaceMentions (drop 4 (c # cs))
      else if matchesAt ''peepingnami'' (c # cs)
      then ''<span class=\"highlight-word\">'' @ take 11 (c # cs) @ ''</span>''
             @ replaceMentions (drop 11 (c # cs))
      else c # replaceMentions cs)"

fun testMentions :: "string \<Rightarrow> bool" where
  "testMentions [] = False"
| "testMentions (c # cs) =
     (matchesAt ''nami'' (c # cs) \<or> matchesAt ''peepingnami'' (c # cs) \<or> testMentions cs)"

definition highlightMentions :: "string \<Rightarrow> string" where
  "highlightMentions message = replaceMentions (sanitizeHTML message)"

subsection \<open>The chat and reply listeners\<close>

text \<open>
  The markup the listeners build, with the line breaks and the indentation of the
  template literals. \<open>encodeURIComponent\<close> and the parser behind
  \<open>insertAdjacentHTML\<close> are the browser's and are parameters; so are the two emoji
  of the reply template, which lie outside the code units of \<^typ>\<open>char\<close>.
\<close>

record twitch_payload =
  d_username :: string
  d_message :: string

definition twitch_message_html :: "twitch_payload \<Rightarrow> string" where
  "twitch_message_html d =
     (let isMention = testMentions (d_message d);
          bgClass = (if isMention then ''mention-bg'' else []);
          formattedMessage = highlightMentions (d_message d)
      in [CHR 0x0A] @ ''        <div class=\"log-line '' @ bgClass @ ''\">'' @ [CHR 0x0A]
         @ ''            <span class=\"twitch-user\">'' @ sanitizeHTML (d_username d) @ '':</span> ''
         @ [CHR 0x0A]
         @ ''            <span>'' @ formattedMessage @ ''</span>'' @ [CHR 0x0A]
         @ ''        </div>'')"

definition twitch_message ::
  "(string \<Rightarrow> string node list) \<Rightarrow> twitch_payload \<Rightarrow> string node list option
     \<Rightarrow> string node list option" where
  "twitch_message parseHTML d twitchMessages =
     appendLog MAX_LOG_LINES twitchMessages (parseHTML (twitch_message_html d))"

record reply_payload =
  d_reply :: string
  d_prompt :: "string option"
  is_censored :: bool
  censorship_reason :: "string option"
  filtered_area :: "string option"

definition orDefault :: "string option \<Rightarrow> string \<Rightarrow> string" where
  "orDefault v dflt = (case v of None \<Rightarrow> dflt | Some x \<Rightarrow> if x = [] then dflt else x)"

definition censorshipIndicator :: "string \<Rightarrow> reply_payload \<Rightarrow> string" where
  "censorshipIndicator siren d =
     (if is_censored d
      then ''<span class=\"censored-indicator\">'' @ siren @ '' FILTERED (''
             @ orDefault (censorship_reason d) ''Unknown Policy'' @ '')</span>''
      else [])"

definition namiHTML :: "(string \<Rightarrow> string) \<Rightarrow> string \<Rightarrow> string \<Rightarrow> reply_payload \<Rightarrow> string" where
  "namiHTML encodeURIComponent siren page d =
     (let sanitizedReply = sanitizeHTML (d_reply d);
          reason = orDefault (censorship_reason d) ''Unknown Policy'';
          filteredArea = orDefault (filtered_area d) [];
          censorshipClass = (if is_censored d then ''censored-reply'' else [])
      in ''<div class=\"log-line nami-reply cursor-pointer '' @ censorshipClass
         @ ''\" onclick=\"openDrawer(this)\" '' @ [CHR 0x0A]
         @ ''        data-reply=\"'' @ encodeURIComponent (d_reply d) @ ''\" '' @ [CHR 0x0A]
         @ ''        data-sent=\"'' @ encodeURIComponent (orDefault (d_prompt d) []) @ ''\" '' @ [CHR 0x0A]
         @ ''        data-censored=\"'' @ (if is_censored d then ''true'' else ''false'') @ ''\"''
         @ [CHR 0x0A]
         @ ''        data-reason=\"'' @ encodeURIComponent reason @ ''\"'' @ [CHR 0x0A]
         @ ''        data-filtered-area=\"'' @ encodeURIComponent filteredArea @ ''\">'' @ [CHR 0x0A]
         @ ''        <strong>Nami:</strong> '' @ sanitizedReply @ censorshipIndicator siren d
         @ [CHR 0x0A]
         @ ''        <span class=\"ml-2 opacity-0 group-hover:opacity-100 text-xs text-gray-400 align-middle\">''
         @ page @ '' Context</span></div>'')"

definition chatHTML :: "reply_payload \<Rightarrow> string" where
  "chatHTML d =
     (let sanitizedReply = sanitizeHTML (d_reply d)
      in [CHR 0x0A]
         @ ''        <div class=\"log-line\" style=\"background-color: rgba(99, 226, 183, 0.05);\">''
         @ [CHR 0x0A]
         @ ''            <span class=\"twitch-user\" style=\"color: #63e2b7;\">Nami:</span> ''
         @ [CHR 0x0A]
         @ ''            <span>'' @ sanitizedReply @ ''</span>'' @ [CHR 0x0A]
         @ ''        </div>'')"

record chat_logs =
  namiReplies :: "string node list option"
  twitchMessages :: "string node list option"

definition bot_reply ::
  "(string \<Rightarrow> string) \<Rightarrow> (string \<Rightarrow> string node list) \<Rightarrow> string \<Rightarrow> string
     \<Rightarrow> reply_payload \<Rightarrow> chat_logs \<Rightarrow> chat_logs" where
  "bot_reply encodeURIComponent parseHTML siren page d logs =
     \<lparr>namiReplies = appendLog MAX_LOG_LINES (namiReplies logs)
                       (parseHTML (namiHTML encodeURIComponent siren page d)),
      twitchMessages = appendLog MAX_LOG_LINES (twitchMessages logs) (parseHTML (chatHTML d))\<rparr>"

subsection \<open>What a piece of markup shows\<close>

text \<open>
  To say that a string is shown as text: \<open>readMarkup\<close> goes through markup as the
  parser does through a run of text and tags. Outside a tag a \<open><\<close> opens one, one of
  the four character references the serialiser writes stands for its character, any
  other \<open>&\<close> is given up on (\<open>None\<close>), and every other character is text; inside a
  tag everything up to the next \<open>>\<close> is skipped (the attribute values of the templates
  hold no \<open>>\<close>). \<open>shownText\<close> is the text read.
\<close>

fun readMarkup :: "bool \<Rightarrow> string \<Rightarrow> string option" where
  "readMarkup inTag [] = Some []"
| "readMarkup True (c # cs) = (if c = CHR ''>'' then readMarkup False cs else readMarkup True cs)"
| "readMarkup False (c # cs) =
     (if c = CHR ''<'' then readMarkup True cs
      else if c \<noteq> CHR ''&'' then map_option ((#) c) (readMarkup False cs)
      else if take 4 cs = ''amp;'' then map_option ((#) (CHR ''&'')) (readMarkup False (drop 4 cs))
      else if take 5 cs = ''nbsp;'' then map_option ((#) (CHR 0xA0)) (readMarkup False (drop 5 cs))
      else if take 3 cs = ''lt;'' then map_option ((#) (CHR ''<'')) (readMarkup False (drop 3 cs))
      else if take 3 cs = ''gt;'' then map_option ((#) (CHR ''>'')) (readMarkup False (drop 3 cs))
      else None)"

definition shownText :: "string \<Rightarrow> string option" where
  "shownText html = readMarkup False html"

section \<open>The debug drawer (ui/drawer_controller.js)\<close>

text \<open>
  The state the controller reads and writes: the variable \<open>currentDebugDrawer\<close>, the
  class lists of \<open>#debug-drawer\<close> and \<open>#debug-drawer-overlay\<close> and the markup of
  \<open>#debug-drawer-content\<close> (each \<open>None\<close> when the page lacks the element), the
  \<open>.debug-nav-btn\<close> buttons (their \<open>data-drawer\<close> attribute and class list), and the
  functions the drawer scripts have put on \<open>window\<close>. Such a function is foreign code:
  what is known of it here is whether a call throws. What the controller does to the
  outside (calls of these functions, requests, console output, timers, scripts run) is
  appended to \<open>effects\<close> in the order it happens. The source file holds two listings
  of the controller; this is the first, which runs the scripts of a loaded fragment,
  starts the refresh from a timer and catches a stop function that throws.
\<close>

datatype effect =
  Called string
  | Fetched string
  | ConsoleError string
  | ConsoleWarn string
  | ConsoleLog string
  | ScriptRun string
  | Timeout nat string

record drawer_page =
  currentDebugDrawer :: "string option"
  drawer :: "string list option"
  overlay :: "string list option"
  content :: "string option"
  navBtns :: "(string \<times> string list) list"
  windowFns :: "string \<Rightarrow> bool option"
  effects :: "effect list"

definition classList_remove :: "string \<Rightarrow> string list \<Rightarrow> string list" where
  "classList_remove token cl = removeAll token cl"

definition stopFunctions :: "string list" where
  "stopFunctions = [''stopThreadStatsRefresh'', ''stopPromptDebugRefresh'', ''stopRunTestsRefresh'']"

text \<open>
  Every stop function that is defined is called; one that throws is caught and warned
  about, and the loop goes on.
\<close>

definition callStop :: "drawer_page \<Rightarrow> string \<Rightarrow> drawer_page" where
  "callStop st fnName =
     (case windowFns st fnName of
        None \<Rightarrow> st
      | Some throws \<Rightarrow>
          st\<lparr>effects := effects st @ Called fnName
                 # (if throws then [ConsoleWarn (''[Drawer] Error stopping '' @ fnName @ '':'')]
                    else [])\<rparr>)"

definition stopAllDrawerRefreshes :: "drawer_page \<Rightarrow> drawer_page" where
  "stopAllDrawerRefreshes st = foldl callStop st stopFunctions"

definition closeDebugDrawer :: "drawer_page \<Rightarrow> drawer_page" where
  "closeDebugDrawer st =
     (let st1 = st\<lparr>drawer := map_option (classList_remove ''open'') (drawer st),
                    overlay := map_option (classList_remove ''visible'') (overlay st)\<rparr>;
          st2 = stopAllDrawerRefreshes st1
      in st2\<lparr>navBtns := map (\<lambda>(name, cl). (name, classList_remove ''active'' cl)) (navBtns st2),
              currentDebugDrawer := None\<rparr>)"

text \<open>
  \<open>fetch\<close> and the scripts of a fragment are the browser's: the response to a request
  (a network failure with its message, or the \<open>ok\<close> flag, the status and the body) is
  the parameter \<open>fetch\<close>, the scripts found in loaded markup the parameter \<open>scriptsOf\<close>.
  The request, the load and the timer set at the end are done in one step here; the
  timer's callback is \<open>startRefreshTimer\<close>.
\<close>

datatype response = NetworkError string | Response bool nat string

definition refreshFnName :: "string \<Rightarrow> string" where
  "refreshFnName drawerName =
     ''start'' @ map toUpperCase (take 1 drawerName)
       @ filter (\<lambda>c. c \<noteq> CHR ''_'') (drop 1 drawerName) @ ''Refresh''"

fun activateFirst :: "string \<Rightarrow> (string \<times> string list) list \<Rightarrow> (string \<times> string list) list" where
  "activateFirst drawerName [] = []"
| "activateFirst drawerName ((name, cl) # btns) =
     (if name = drawerName then (name, classList_add ''active'' cl) # btns
      else (name, cl) # activateFirst drawerName btns)"

definition errorMarkup :: "string \<Rightarrow> string" where
  "errorMarkup message =
     ''<div class=\"p-8 text-center text-red-400\">Error loading drawer: '' @ message @ ''</div>''"

definition openDebugDrawer ::
  "(string \<Rightarrow> response) \<Rightarrow> (string \<Rightarrow> string list) \<Rightarrow> string \<Rightarrow> drawer_page \<Rightarrow> drawer_page" where
  "openDebugDrawer fetch scriptsOf drawerName st =
     (if drawer st = None \<or> overlay st = None \<or> content st = None
      then st\<lparr>effects := effects st @ [ConsoleError ''Debug drawer elements not found'']\<rparr>
      else if currentDebugDrawer st = Some drawerName then closeDebugDrawer st
      else
        let st1 = stopAllDrawerRefreshes st;
            url = ''/static/drawers/'' @ drawerName @ ''.html'';
            st2 = st1\<lparr>effects := effects st1 @ [Fetched url]\<rparr>;
            failed = (\<lambda>message.
              st2\<lparr>effects := effects st2 @ [ConsoleError ''Error loading drawer:''],
                  content := Some (errorMarkup message)\<rparr>)
        in case fetch url of
             NetworkError message \<Rightarrow> failed message
           | Response ok status html \<Rightarrow>
               if \<not> ok then failed (''Failed to load drawer: '' @ decimal status)
               else st2\<lparr>content := Some html,
                        effects := effects st2 @ map ScriptRun (scriptsOf html)
                                     @ [Timeout 200 (refreshFnName drawerName)],
                        navBtns := activateFirst drawerName
                                     (map (\<lambda>(name, cl). (name, classList_remove ''active'' cl)) (navBtns st2)),
                        drawer := map_option (classList_add ''open'') (drawer st2),
                        overlay := map_option (classList_add ''visible'') (overlay st2),
                        currentDebugDrawer := Some drawerName\<rparr>)"

definition startRefreshTimer :: "string \<Rightarrow> drawer_page \<Rightarrow> drawer_page" where
  "startRefreshTimer drawerName st =
     (case windowFns st (refreshFnName drawerName) of
        Some _ \<Rightarrow>
          st\<lparr>effects := effects st
                 @ [ConsoleLog (''[Drawer] Starting auto-refresh: '' @ refreshFnName drawerName),
                    Called (refreshFnName drawerName)]\<rparr>
      | None \<Rightarrow>
          st\<lparr>effects := effects st
                 @ [ConsoleLog (''[Drawer] No refresh function found: '' @ refreshFnName drawerName)]\<rparr>)"

text \<open>
  The states the page can be in: it loads with no drawer open and nothing done yet;
  drawers are opened and closed, timers fire, and the scripts of a drawer define and
  redefine functions on \<open>window\<close>.
\<close>

inductive reachable :: "drawer_page \<Rightarrow> bool" where
  loaded: "currentDebugDrawer st = None \<Longrightarrow> effects st = [] \<Longrightarrow> reachable st"
| opened: "reachable st \<Longrightarrow> reachable (openDebugDrawer fetch scriptsOf drawerName st)"
| closed: "reachable st \<Longrightarrow> reachable (closeDebugDrawer st)"
| timer: "reachable st \<Longrightarrow> reachable (startRefreshTimer drawerName st)"
| scripted: "reachable st \<Longrightarrow> reachable (st\<lparr>windowFns := fns\<rparr>)"

code_pred reachable .

fun isFetched :: "effect \<Rightarrow> bool" where
  "isFetched (Fetched _) = True"
| "isFetched _ = False"

section \<open>Properties\<close>

subsection \<open>Keeping the last lines\<close>

lemma drop_last_append:
  "drop (length (drop (length xs - c) xs @ ys) - c) (drop (length xs - c) xs @ ys)
     = drop (length (xs @ ys) - c) (xs @ ys)"
proof (cases "length xs \<le> c")
  case True
  then show ?thesis by simp
next
  case False
  then have "length (drop (length xs - c) xs) = c" by simp
  then show ?thesis using False by (simp add: add.commute)
qed

lemma pushShift_short:
  "length arr \<le> c \<Longrightarrow> pushShift c arr x = drop (length (arr @ [x]) - c) (arr @ [x])"
proof (cases "length arr = c")
  case True
  have "tl (arr @ [x]) = drop (Suc 0) (arr @ [x])" by (metis drop_Suc drop_0)
  then show ?thesis using True by (simp add: pushShift_def Let_def del: drop_append)
next
  case False
  assume "length arr \<le> c"
  with False show ?thesis by (simp add: pushShift_def Let_def)
qed

lemma pushShift_keeps_last:
  "pushShift c (drop (length xs - c) xs) x = drop (length (xs @ [x]) - c) (xs @ [x])"
proof -
  have "length (drop (length xs - c) xs) \<le> c" by simp
  then have "pushShift c (drop (length xs - c) xs) x
      = drop (length (drop (length xs - c) xs @ [x]) - c) (drop (length xs - c) xs @ [x])"
    by (rule pushShift_short)
  then show ?thesis using drop_last_append [where xs = xs and c = c and ys = "[x]"] by simp
qed

lemma pushShift_foldl:
  "foldl (pushShift c) (drop (length xs - c) xs) ys = drop (length (xs @ ys) - c) (xs @ ys)"
proof (induction ys arbitrary: xs)
  case Nil
  then show ?case by simp
next
  case (Cons y ys)
  have "foldl (pushShift c) (drop (length xs - c) xs) (y # ys)
      = foldl (pushShift c) (drop (length (xs @ [y]) - c) (xs @ [y])) ys"
    by (simp add: pushShift_keeps_last del: length_append)
  also have "\<dots> = drop (length ((xs @ [y]) @ ys) - c) ((xs @ [y]) @ ys)"
    by (rule Cons.IH)
  finally show ?case by simp
qed

lemma updateAmbientLog_push:
  "el p = Some e \<Longrightarrow>
   updateAmbientLog c p t ic False
     = \<lparr>el = Some (map (renderLine ic) (pushShift c (logArray p) t)),
        logArray = pushShift c (logArray p) t\<rparr>"
  by (simp add: updateAmbientLog_def Let_def)

lemma updateAmbientLog_foldl:
  "el p = Some e \<Longrightarrow>
   logArray (foldl (\<lambda>q t. updateAmbientLog c q t ic False) p ts) = foldl (pushShift c) (logArray p) ts
   \<and> el (foldl (\<lambda>q t. updateAmbientLog c q t ic False) p ts)
       = (if ts = [] then el p else Some (map (renderLine ic) (foldl (pushShift c) (logArray p) ts)))"
proof (induction ts arbitrary: p e)
  case Nil
  then show ?case by simp
next
  case (Cons t ts)
  let ?q = "updateAmbientLog c p t ic False"
  have q: "?q = \<lparr>el = Some (map (renderLine ic) (pushShift c (logArray p) t)),
        logArray = pushShift c (logArray p) t\<rparr>"
    using Cons.prems by (rule updateAmbientLog_push)
  then have "el ?q = Some (map (renderLine ic) (pushShift c (logArray p) t))" by simp
  from Cons.IH [OF this] show ?case by (simp add: q)
qed

lemma children_removeFirstWhileOver:
  "children (removeFirstWhileOver c ns) = drop (length (children ns) - c) (children ns)"
proof (induction ns)
  case Nil
  then show ?case by (simp add: children_def)
next
  case (Cons n ns)
  show ?case
  proof (cases "length (children (n # ns)) > c")
    case False
    then show ?thesis by simp
  next
    case True
    then have "children (removeFirstWhileOver c (n # ns)) = drop (length (children ns) - c) (children ns)"
      using Cons.IH by simp
    also have "\<dots> = drop (length (children (n # ns)) - c) (children (n # ns))"
    proof (cases n)
      case (Element x)
      then have "children (n # ns) = n # children ns" by (simp add: children_def)
      moreover have "length (n # children ns) - c = Suc (length (children ns) - c)"
        using True calculation by simp
      ultimately show ?thesis by simp
    next
      case (TextNode x)
      then show ?thesis by (simp add: children_def)
    qed
    finally show ?thesis .
  qed
qed

lemma children_append: "children (xs @ ys) = children xs @ children ys"
  by (simp add: children_def)

lemma appendLog_foldl:
  "children ns = drop (length xs - c) xs \<Longrightarrow>
   \<exists>ms. foldl (appendLog c) (Some ns) hs = Some ms
     \<and> children ms = drop (length (xs @ children (concat hs)) - c) (xs @ children (concat hs))"
proof (induction hs arbitrary: ns xs)
  case Nil
  then show ?case by (simp add: children_def)
next
  case (Cons h hs)
  let ?ms = "removeFirstWhileOver c (ns @ h)"
  have "children ?ms = drop (length (children ns @ children h) - c) (children ns @ children h)"
    by (simp add: children_removeFirstWhileOver children_append del: length_append)
  also have "\<dots> = drop (length (xs @ children h) - c) (xs @ children h)"
    unfolding Cons.prems by (rule drop_last_append)
  finally have "children ?ms = drop (length (xs @ children h) - c) (xs @ children h)" .
  from Cons.IH [OF this] show ?case by (simp add: appendLog_def children_append)
qed

lemma one_element_each:
  "\<forall>h\<in>set hs. length (children h) = 1 \<Longrightarrow> length (children (concat hs)) = length hs"
  by (induction hs) (simp_all add: children_append, simp add: children_def)

subsection \<open>Strict FIFO eviction\<close>

text \<open>
  Claim C3. A feed of capacity \<open>cap\<close> that starts empty and takes \<open>N > cap\<close> appends
  (no replacement) holds exactly \<open>cap\<close> entries afterwards, the last \<open>cap\<close> appended
  contents in their order. For a panel array (\<open>updateAmbientLog\<close> with \<open>isUpdate\<close>
  false, the panel's element on the page) the entries are the lines of \<open>logArray\<close>,
  which is also what the panel shows; for a chat log (\<open>appendLog\<close>, every piece of
  markup holding one element) they are the child elements of the log.
\<close>

theorem fifo_keeps_last_capacity:
  assumes "el p \<noteq> None" and "logArray p = []" and "cap < length ts"
    and "\<forall>h\<in>set htmls. length (children h) = 1" and "cap < length htmls"
  shows "(let q = foldl (\<lambda>q t. updateAmbientLog cap q t itemClass False) p ts
          in logArray q = drop (length ts - cap) ts \<and> length (logArray q) = cap
             \<and> el q = Some (map (renderLine itemClass) (drop (length ts - cap) ts)))
       \<and> (\<exists>ms. foldl (appendLog cap) (Some []) htmls = Some ms
             \<and> children ms = drop (length htmls - cap) (children (concat htmls))
             \<and> length (children ms) = cap)"
proof -
  from assms(1) obtain e where e: "el p = Some e" by auto
  have ts: "ts \<noteq> []" using assms(3) by auto
  have "foldl (pushShift cap) (drop (length ([]::string list) - cap) []) ts
      = drop (length ([] @ ts) - cap) ([] @ ts)"
    by (rule pushShift_foldl)
  then have arr: "foldl (pushShift cap) (logArray p) ts = drop (length ts - cap) ts"
    using assms(2) by simp
  have len: "length (drop (length ts - cap) ts) = cap" using assms(3) by simp
  have panel: "let q = foldl (\<lambda>q t. updateAmbientLog cap q t itemClass False) p ts
          in logArray q = drop (length ts - cap) ts \<and> length (logArray q) = cap
             \<and> el q = Some (map (renderLine itemClass) (drop (length ts - cap) ts))"
    using updateAmbientLog_foldl [OF e, of cap itemClass ts] arr len ts by (simp add: Let_def)
  have n: "length (children (concat htmls)) = length htmls"
    using assms(4) by (rule one_element_each)
  have "children ([] :: 'b node list) = drop (length ([] :: 'b node list) - cap) []"
    by (simp add: children_def)
  from appendLog_foldl [OF this, of htmls] obtain ms where
    ms: "foldl (appendLog cap) (Some []) htmls = Some ms"
      "children ms = drop (length (children (concat htmls)) - cap) (children (concat htmls))"
    by auto
  have "length (children ms) = cap" using ms(2) n assms(5) by simp
  with ms n have "\<exists>ms. foldl (appendLog cap) (Some []) htmls = Some ms
             \<and> children ms = drop (length htmls - cap) (children (concat htmls))
             \<and> length (children ms) = cap"
    by simp
  with panel show ?thesis by simp
qed

text \<open>
  The example of the claim: capacity 3 and the appends \<open>x\<close>, \<open>y\<close>, \<open>z\<close>, \<open>w\<close> leave
  \<open>y\<close>, \<open>z\<close>, \<open>w\<close>, in the panel array and among the elements of the chat log (whose
  markup comes with a white-space text node before each element).
\<close>

theorem fifo_keeps_last_capacity_witness:
  "logArray (foldl (\<lambda>q t. updateAmbientLog 3 q t [] False) \<lparr>el = Some [], logArray = []\<rparr>
      [''x'', ''y'', ''z'', ''w'']) = [''y'', ''z'', ''w'']
   \<and> (\<exists>ms. foldl (appendLog 3) (Some [])
          [[TextNode '' '', Element ''x''], [TextNode '' '', Element ''y''],
           [TextNode '' '', Element ''z''], [TextNode '' '', Element ''w'']] = Some ms
        \<and> children ms = [Element ''y'', Element ''z'', Element ''w''])"
proof -
  let ?p = "\<lparr>el = Some [], logArray = []\<rparr>"
  let ?hs = "[[TextNode '' '', Element ''x''], [TextNode '' '', Element ''y''],
           [TextNode '' '', Element ''z''], [TextNode '' '', Element ''w'']]"
  have h1: "el ?p \<noteq> None" by simp
  have h2: "logArray ?p = []" by simp
  have h3: "3 < length [''x'', ''y'', ''z'', ''w'']" by simp
  have h4: "\<forall>h\<in>set ?hs. length (children h) = 1" by (simp add: children_def)
  have h5: "3 < length ?hs" by simp
  from fifo_keeps_last_capacity [OF h1 h2 h3 h4 h5, of "[]"]
  show ?thesis by (auto simp add: Let_def children_def)
qed

subsection \<open>Looking up and changing elements of the document\<close>

lemma getElementById_has_id:
  shows "getElementById key n = Some m \<Longrightarrow> el_id (attrs m) = Some key"
    and "getElementByIdIn key ns = Some m \<Longrightarrow> el_id (attrs m) = Some key"
  by (induction key n and key ns rule: getElementById_getElementByIdIn.induct)
     (auto split: if_splits option.splits)

lemma updateById_not_found:
  shows "getElementById key n = None \<Longrightarrow> updateById key f n = n"
    and "getElementByIdIn key ns = None \<Longrightarrow> updateByIdIn key f ns = ns"
  by (induction key n and key ns rule: getElementById_getElementByIdIn.induct)
     (auto split: if_splits option.splits)

lemma length_updateByIdIn: "length (updateByIdIn key f ns) = length ns"
  by (induction ns) auto

lemma getElementById_updateById:
  shows "getElementById key n = Some m \<Longrightarrow> el_id (attrs (f m)) = Some key
           \<Longrightarrow> getElementById key (updateById key f n) = Some (f m)"
    and "getElementByIdIn key ns = Some m \<Longrightarrow> el_id (attrs (f m)) = Some key
           \<Longrightarrow> getElementByIdIn key (updateByIdIn key f ns) = Some (f m)"
proof (induction key n and key ns rule: getElementById_getElementByIdIn.induct)
  case (1 key a ks)
  show ?case
  proof (cases "el_id a = Some key")
    case True
    with 1 have "m = Elem a ks" by simp
    moreover obtain a' ks' where "f (Elem a ks) = Elem a' ks'" by (cases "f (Elem a ks)") auto
    ultimately show ?thesis using True 1(3) by simp
  next
    case False
    with 1 show ?thesis by simp
  qed
next
  case (2 key)
  then show ?case by simp
next
  case (3 key n ns)
  then show ?case by (auto split: option.splits)
qed

lemma getElementById_inside:
  shows "getElementById a n = Some c \<Longrightarrow> getElementById key c \<noteq> None
           \<Longrightarrow> getElementById key n \<noteq> None"
    and "getElementByIdIn a ns = Some c \<Longrightarrow> getElementById key c \<noteq> None
           \<Longrightarrow> getElementByIdIn key ns \<noteq> None"
proof (induction a n and a ns rule: getElementById_getElementByIdIn.induct)
  case (1 a b ks)
  then show ?case by (auto split: if_splits)
next
  case (2 a)
  then show ?case by simp
next
  case (3 a n ns)
  then show ?case by (auto split: option.splits)
qed

lemma getElementById_after_update:
  shows "(\<And>m. el_id (attrs m) = Some key \<Longrightarrow> getElementById a (f m) = None)
           \<Longrightarrow> (\<And>m. getElementById key n = Some m \<Longrightarrow> getElementById a m = None)
           \<Longrightarrow> rel_option (sameOrUpdated key f) (getElementById a n) (getElementById a (updateById key f n))"
    and "(\<And>m. el_id (attrs m) = Some key \<Longrightarrow> getElementById a (f m) = None)
           \<Longrightarrow> (\<And>m. getElementByIdIn key ns = Some m \<Longrightarrow> getElementById a m = None)
           \<Longrightarrow> rel_option (sameOrUpdated key f) (getElementByIdIn a ns) (getElementByIdIn a (updateByIdIn key f ns))"
proof (induction key n and key ns rule: getElementById_getElementByIdIn.induct)
  case (1 key b ks)
  show ?case
  proof (cases "el_id b = Some key")
    case True
    then have "getElementById a (Elem b ks) = None" using 1(3) by simp
    moreover have "getElementById a (f (Elem b ks)) = None" using 1(2) True by simp
    ultimately show ?thesis using True by simp
  next
    case False
    note nk = this
    show ?thesis
    proof (cases "el_id b = Some a")
      case True
      then show ?thesis using nk by (simp add: sameOrUpdated_def)
    next
      case False
      have "rel_option (sameOrUpdated key f) (getElementByIdIn a ks) (getElementByIdIn a (updateByIdIn key f ks))"
        using 1 nk by simp
      then show ?thesis using nk False by simp
    qed
  qed
next
  case (2 key)
  then show ?case by simp
next
  case (3 key n ns)
  have refl: "\<And>x. sameOrUpdated key f x x"
    by (simp add: sameOrUpdated_def)
  have refl': "\<And>x. rel_option (sameOrUpdated key f) x x"
    by (simp add: option.rel_refl refl)
  show ?case
  proof (cases "getElementById key n")
    case None
    then have "rel_option (sameOrUpdated key f) (getElementByIdIn a ns) (getElementByIdIn a (updateByIdIn key f ns))"
      using 3 by simp
    then show ?thesis using None refl refl' by (auto split: option.splits)
  next
    case (Some x)
    then have "rel_option (sameOrUpdated key f) (getElementById a n) (getElementById a (updateById key f n))"
      using 3 by simp
    then show ?thesis using Some refl refl' by (auto split: option.splits)
  qed
qed

lemma updateById_inside_container:
  shows "a \<noteq> key \<Longrightarrow> getElementById a n = Some c
           \<Longrightarrow> getElementById key (updateById a (\<lambda>c. Elem (attrs c) []) n) = None
           \<Longrightarrow> getElementById key n = getElementByIdIn key (kids c)
               \<and> updateById key f n
                   = updateById a (\<lambda>c. Elem (attrs c) (updateByIdIn key f (kids c))) n"
    and "a \<noteq> key \<Longrightarrow> getElementByIdIn a ns = Some c
           \<Longrightarrow> getElementByIdIn key (updateByIdIn a (\<lambda>c. Elem (attrs c) []) ns) = None
           \<Longrightarrow> getElementByIdIn key ns = getElementByIdIn key (kids c)
               \<and> updateByIdIn key f ns
                   = updateByIdIn a (\<lambda>c. Elem (attrs c) (updateByIdIn key f (kids c))) ns"
proof (induction a n and a ns rule: getElementById_getElementByIdIn.induct)
  case (1 a b ks)
  show ?case
  proof (cases "el_id b = Some a")
    case True
    then show ?thesis using 1(2,3) by auto
  next
    case False
    then have nk: "el_id b \<noteq> Some key" using 1(4) by auto
    from False 1 nk show ?thesis by simp
  qed
next
  case (2 a)
  then show ?case by simp
next
  case (3 a n ns)
  show ?case
  proof (cases "getElementById a n")
    case None
    with 3 show ?thesis by (auto split: option.splits)
  next
    case (Some x)
    with 3(4) have xc: "x = c" by simp
    from Some 3(5) have h: "getElementById key (updateById a (\<lambda>c. Elem (attrs c) []) n) = None"
      and t: "getElementByIdIn key ns = None" by (auto split: option.splits)
    from 3(1) [OF 3(3) _ h] Some xc
    have ih: "getElementById key n = getElementByIdIn key (kids c)"
      "updateById key f n = updateById a (\<lambda>c. Elem (attrs c) (updateByIdIn key f (kids c))) n"
      by auto
    show ?thesis
    proof (cases "getElementById key n")
      case None
      then have "updateById key f n = n" by (rule updateById_not_found(1))
      with ih None t Some show ?thesis by (simp add: updateById_not_found(2))
    next
      case (Some y)
      have l: "getElementByIdIn key (n # ns) = getElementById key n" using Some by simp
      have u: "updateByIdIn key f (n # ns) = updateById key f n # ns" using Some by simp
      have r: "updateByIdIn a (\<lambda>c. Elem (attrs c) (updateByIdIn key f (kids c))) (n # ns)
                = updateById a (\<lambda>c. Elem (attrs c) (updateByIdIn key f (kids c))) n # ns"
        using \<open>getElementById a n = Some x\<close> by simp
      show ?thesis unfolding l u r using ih by simp
    qed
  qed
qed

lemma first_entry:
  "i < length es \<Longrightarrow> el_id (attrs (es ! i)) = Some key
     \<Longrightarrow> \<forall>j<i. getElementById key (es ! j) = None
     \<Longrightarrow> getElementByIdIn key es = Some (es ! i) \<and> updateByIdIn key f es = es[i := f (es ! i)]"
proof (induction es arbitrary: i)
  case Nil
  then show ?case by simp
next
  case (Cons e es)
  show ?case
  proof (cases i)
    case 0
    obtain b ks where e: "e = Elem b ks" by (cases e) auto
    with Cons.prems 0 show ?thesis by simp
  next
    case (Suc k)
    with Cons.prems have none: "getElementById key e = None" by auto
    have "getElementByIdIn key es = Some (es ! k) \<and> updateByIdIn key f es = es[k := f (es ! k)]"
    proof (rule Cons.IH)
      show "k < length es" using Cons.prems Suc by simp
      show "el_id (attrs (es ! k)) = Some key" using Cons.prems Suc by simp
      show "\<forall>j<k. getElementById key (es ! j) = None"
      proof (intro allI impI)
        fix j assume "j < k"
        then have "Suc j < i" using Suc by simp
        with Cons.prems(3) have "getElementById key ((e # es) ! Suc j) = None" by blast
        then show "getElementById key (es ! j) = None" by simp
      qed
    qed
    with none Suc show ?thesis by simp
  qed
qed

lemma one_entry_changes:
  "getElementByIdIn key es \<noteq> None
     \<Longrightarrow> \<exists>i<length es. (\<forall>j<i. getElementById key (es ! j) = None)
           \<and> getElementById key (es ! i) \<noteq> None
           \<and> getElementByIdIn key es = getElementById key (es ! i)
           \<and> updateByIdIn key f es = es[i := updateById key f (es ! i)]"
proof (induction es)
  case Nil
  then show ?case by simp
next
  case (Cons e es)
  show ?case
  proof (cases "getElementById key e")
    case (Some x)
    then have "0 < length (e # es) \<and> (\<forall>j<0. getElementById key ((e # es) ! j) = None)
           \<and> getElementById key ((e # es) ! 0) \<noteq> None
           \<and> getElementByIdIn key (e # es) = getElementById key ((e # es) ! 0)
           \<and> updateByIdIn key f (e # es) = (e # es)[0 := updateById key f ((e # es) ! 0)]"
      by simp
    then show ?thesis by blast
  next
    case None
    with Cons.prems have "getElementByIdIn key es \<noteq> None" by simp
    from Cons.IH [OF this] obtain i where i: "i < length es"
      "\<forall>j<i. getElementById key (es ! j) = None" "getElementById key (es ! i) \<noteq> None"
      "getElementByIdIn key es = getElementById key (es ! i)"
      "updateByIdIn key f es = es[i := updateById key f (es ! i)]" by blast
    have "\<forall>j<Suc i. getElementById key ((e # es) ! j) = None"
    proof (intro allI impI)
      fix j assume "j < Suc i"
      then show "getElementById key ((e # es) ! j) = None" using None i(2) by (cases j) auto
    qed
    with i None have "Suc i < length (e # es) \<and> (\<forall>j<Suc i. getElementById key ((e # es) ! j) = None)
           \<and> getElementById key ((e # es) ! Suc i) \<noteq> None
           \<and> getElementByIdIn key (e # es) = getElementById key ((e # es) ! Suc i)
           \<and> updateByIdIn key f (e # es) = (e # es)[Suc i := updateById key f ((e # es) ! Suc i)]"
      by simp
    then show ?thesis by blast
  qed
qed

subsection \<open>Replacing and appending\<close>

lemma sessionKey_not_container: "sessionKey sid \<noteq> ''audio-context''"
  by (simp add: sessionKey_def)

lemma transcript_Some:
  "transcript doc = Some es \<Longrightarrow> \<exists>c. getElementById ''audio-context'' doc = Some c \<and> kids c = es"
  by (auto simp add: transcript_def)

lemma transcript_append:
  assumes "transcript doc = Some es"
  shows "transcript (updateById ''audio-context'' (appendChild child) doc) = Some (es @ [child])"
proof -
  from transcript_Some [OF assms] obtain c where
    c: "getElementById ''audio-context'' doc = Some c" "kids c = es" by blast
  have "el_id (attrs c) = Some ''audio-context''" using c(1) by (rule getElementById_has_id(1))
  then have "el_id (attrs (appendChild child c)) = Some ''audio-context''"
    by (simp add: appendChild_def)
  with c(1) have "getElementById ''audio-context'' (updateById ''audio-context'' (appendChild child) doc)
      = Some (appendChild child c)"
    by (rule getElementById_updateById(1))
  then show ?thesis using c(2) by (simp add: transcript_def appendChild_def)
qed

lemma audio_context_append:
  assumes "transcript doc = Some es"
    and "\<not> is_partial d \<or> getElementById (sessionKey (session_id d)) doc = None"
  shows "audio_context d doc = updateById ''audio-context'' (appendChild (newSessionDiv d)) doc"
    and "transcript (audio_context d doc) = Some (es @ [newSessionDiv d])"
proof -
  from transcript_Some [OF assms(1)] obtain c where
    c: "getElementById ''audio-context'' doc = Some c" by blast
  show a: "audio_context d doc = updateById ''audio-context'' (appendChild (newSessionDiv d)) doc"
    using c assms(2) by (auto simp add: audio_context_def Let_def)
  show "transcript (audio_context d doc) = Some (es @ [newSessionDiv d])"
    unfolding a using assms(1) by (rule transcript_append)
qed

lemma audio_context_no_container:
  "transcript doc = None \<Longrightarrow> audio_context d doc = doc"
  by (auto simp add: audio_context_def transcript_def)

lemma audio_context_replace:
  assumes "transcript doc = Some es" and "is_partial d"
    and "getElementById (sessionKey (session_id d)) doc = Some m"
  shows "audio_context d doc
           = updateById (sessionKey (session_id d)) (setLiveText (d_context d)) doc"
    and "getElementById (sessionKey (session_id d)) (audio_context d doc)
           = Some (setLiveText (d_context d) m)"
proof -
  from transcript_Some [OF assms(1)] obtain c where
    c: "getElementById ''audio-context'' doc = Some c" by blast
  show a: "audio_context d doc
           = updateById (sessionKey (session_id d)) (setLiveText (d_context d)) doc"
    using c assms(2,3) by (simp add: audio_context_def Let_def)
  have "el_id (attrs m) = Some (sessionKey (session_id d))"
    using assms(3) by (rule getElementById_has_id(1))
  then have "el_id (attrs (setLiveText (d_context d) m)) = Some (sessionKey (session_id d))"
    by (simp add: setLiveText_def)
  with assms(3) show "getElementById (sessionKey (session_id d)) (audio_context d doc)
           = Some (setLiveText (d_context d) m)"
    unfolding a by (rule getElementById_updateById(1))
qed

lemma setLiveText_no_container:
  "el_id (attrs m) = Some (sessionKey sid) \<Longrightarrow> getElementById ''audio-context'' (setLiveText t m) = None"
  by (simp add: setLiveText_def sessionKey_def)

lemma audio_context_replace_length:
  assumes "transcript doc = Some es" and "is_partial d"
    and "getElementById (sessionKey (session_id d)) doc = Some m"
    and "getElementById ''audio-context'' m = None"
  shows "\<exists>es'. transcript (audio_context d doc) = Some es' \<and> length es' = length es"
proof -
  let ?key = "sessionKey (session_id d)"
  let ?f = "setLiveText (d_context d)"
  from transcript_Some [OF assms(1)] obtain c where
    c: "getElementById ''audio-context'' doc = Some c" "kids c = es" by blast
  have "rel_option (sameOrUpdated ?key ?f) (getElementById ''audio-context'' doc)
          (getElementById ''audio-context'' (updateById ?key ?f doc))"
  proof (rule getElementById_after_update(1))
    fix m' assume "el_id (attrs m') = Some ?key"
    then show "getElementById ''audio-context'' (?f m') = None" by (rule setLiveText_no_container)
  next
    fix m' assume "getElementById ?key doc = Some m'"
    with assms(3,4) show "getElementById ''audio-context'' m' = None" by simp
  qed
  then obtain c' where c': "getElementById ''audio-context'' (updateById ?key ?f doc) = Some c'"
    "sameOrUpdated ?key ?f c c'"
    using c(1) by (auto simp add: option_rel_Some1)
  have "length (kids c') = length es"
    using c'(2) c(2) by (auto simp add: sameOrUpdated_def length_updateByIdIn)
  then show ?thesis
    using c'(1) audio_context_replace(1) [OF assms(1,2,3)] by (simp add: transcript_def)
qed

lemma audio_context_replace_entry:
  assumes "transcript doc = Some es" and "is_partial d"
    and "getElementById (sessionKey (session_id d)) doc = Some m"
    and "getElementById (sessionKey (session_id d)) (withoutTranscript doc) = None"
  shows "\<exists>i<length es. (\<forall>j<i. getElementById (sessionKey (session_id d)) (es ! j) = None)
           \<and> getElementById (sessionKey (session_id d)) (es ! i) = Some m
           \<and> transcript (audio_context d doc)
               = Some (es[i := updateById (sessionKey (session_id d)) (setLiveText (d_context d)) (es ! i)])"
proof -
  let ?key = "sessionKey (session_id d)"
  let ?f = "setLiveText (d_context d)"
  from transcript_Some [OF assms(1)] obtain c where
    c: "getElementById ''audio-context'' doc = Some c" "kids c = es" by blast
  have ne: "''audio-context'' \<noteq> ?key" using sessionKey_not_container [of "session_id d"] by simp
  from updateById_inside_container(1) [OF ne c(1), of ?f] assms(4)
  have in_c: "getElementById ?key doc = getElementByIdIn ?key es"
    and upd: "updateById ?key ?f doc
       = updateById ''audio-context'' (\<lambda>c. Elem (attrs c) (updateByIdIn ?key ?f (kids c))) doc"
    using c(2) by (simp_all add: withoutTranscript_def)
  from assms(3) have found: "getElementByIdIn ?key es = Some m" unfolding in_c .
  then have "getElementByIdIn ?key es \<noteq> None" by simp
  from one_entry_changes [OF this, of ?f] obtain i where i: "i < length es"
    "\<forall>j<i. getElementById ?key (es ! j) = None"
    "getElementByIdIn ?key es = getElementById ?key (es ! i)"
    "updateByIdIn ?key ?f es = es[i := updateById ?key ?f (es ! i)]" by blast
  have "el_id (attrs c) = Some ''audio-context''" using c(1) by (rule getElementById_has_id(1))
  then have "el_id (attrs (Elem (attrs c) (updateByIdIn ?key ?f (kids c)))) = Some ''audio-context''"
    by simp
  with c(1) have "getElementById ''audio-context''
        (updateById ''audio-context'' (\<lambda>c. Elem (attrs c) (updateByIdIn ?key ?f (kids c))) doc)
      = Some (Elem (attrs c) (updateByIdIn ?key ?f (kids c)))"
    by (rule getElementById_updateById(1) [where f = "\<lambda>c. Elem (attrs c) (updateByIdIn ?key ?f (kids c))"])
  then have "transcript (audio_context d doc) = Some (es[i := updateById ?key ?f (es ! i)])"
    using audio_context_replace(1) [OF assms(1,2,3)] upd i(4) c(2) by (simp add: transcript_def)
  moreover have "getElementById ?key (es ! i) = Some m" using i(3) found by simp
  ultimately show ?thesis using i(1,2) by blast
qed

lemma updateById_at_root:
  "el_id (attrs n) = Some key \<Longrightarrow> getElementById key n = Some n \<and> updateById key f n = f n"
  by (cases n) simp

lemma list_update_last: "xs \<noteq> [] \<Longrightarrow> xs[length xs - 1 := t] = butlast xs @ [t]"
  by (cases xs rule: rev_cases) simp_all

lemma updateAmbientLog_replace:
  assumes "el p \<noteq> None" and "logArray p \<noteq> []"
  shows "logArray (updateAmbientLog c p t ic True) = butlast (logArray p) @ [t]"
proof -
  from assms(1) obtain e where "el p = Some e" by auto
  moreover have "(logArray p)[length (logArray p) - 1 := t] = butlast (logArray p) @ [t]"
    using assms(2) by (rule list_update_last)
  ultimately show ?thesis using assms(2) by (simp add: updateAmbientLog_def Let_def)
qed

lemma audio_context_finals:
  "transcript (foldl (\<lambda>c d. audio_context d c) doc
      (map (\<lambda>t. \<lparr>d_context = t, session_id = None, is_partial = False\<rparr>) ts))
   = map_option
       (\<lambda>es. es @ map (\<lambda>t. Elem (createElement\<lparr>classList := [''audio-highlight''], textContent := t\<rparr>) []) ts)
       (transcript doc)"
proof (induction ts arbitrary: doc)
  case Nil
  show ?case by (cases "transcript doc") simp_all
next
  case (Cons t ts)
  let ?d = "\<lparr>d_context = t, session_id = None, is_partial = False\<rparr>"
  show ?case
  proof (cases "transcript doc")
    case None
    then have "audio_context ?d doc = doc" by (rule audio_context_no_container)
    then show ?thesis using Cons.IH [of doc] None by simp
  next
    case (Some es)
    have "\<not> is_partial ?d \<or> getElementById (sessionKey (session_id ?d)) doc = None" by simp
    from audio_context_append(2) [OF Some this]
    have "transcript (audio_context ?d doc)
        = Some (es @ [Elem (createElement\<lparr>classList := [''audio-highlight''], textContent := t\<rparr>) []])"
      by (simp add: newSessionDiv_def createElement_def)
    then show ?thesis using Cons.IH [of "audio_context ?d doc"] Some by simp
  qed
qed

lemmas audio_eval = audio_context_def Let_def transcript_def pageWith_def newSessionDiv_def
  createElement_def sessionKey_def classList_add_def spec_identity_rule_def setLiveText_def
  appendChild_def

subsection \<open>The audio transcript has no bound\<close>

text \<open>
  Claim C1 says that each of the five feeds stays at or below its capacity. The panel
  arrays, the score series and the chat logs do (\<open>bounded_feeds_stay_bounded\<close> and the
  two lemmas after it, below);
  the audio transcript does not: its listener appends a \<open>div\<close> and never removes one.
  Any number of final transcripts (no \<open>session_id\<close>, \<open>is_partial\<close> false) delivered to
  a page leaves as many more entries in \<open>#audio-context\<close> as there were events, so 21
  of them delivered to an empty \<open>#audio-context\<close> leave 21, one more than
  \<open>MAX_PANEL_LINES\<close>, the bound of the two sibling panels.
\<close>

theorem audio_transcript_unbounded:
  "transcript (foldl (\<lambda>c d. audio_context d c) document
      (map (\<lambda>t. \<lparr>d_context = t, session_id = None, is_partial = False\<rparr>) ts))
     = map_option
         (\<lambda>es. es @ map (\<lambda>t. Elem (createElement\<lparr>classList := [''audio-highlight''], textContent := t\<rparr>) []) ts)
         (transcript document)
   \<and> transcript (foldl (\<lambda>c d. audio_context d c) (pageWith [])
      (map (\<lambda>t. \<lparr>d_context = t, session_id = None, is_partial = False\<rparr>) ts))
     = Some (map (\<lambda>t. Elem (createElement\<lparr>classList := [''audio-highlight''], textContent := t\<rparr>) []) ts)"
proof -
  have "transcript (pageWith []) = Some []" by (simp add: transcript_def pageWith_def createElement_def)
  then show ?thesis
    using audio_context_finals [of document ts] audio_context_finals [of "pageWith []" ts] by simp
qed

subsection \<open>Replacement keeps the length\<close>

text \<open>
  Claim C4. The replace branch leaves the number of entries as it is and evicts nothing.
  In the audio transcript, a partial event whose id an element of the document carries
  (an element that does not itself contain \<open>#audio-context\<close>) changes that element and
  nothing else, and the transcript keeps its length. When no element outside the
  transcript carries the id, the result is the transcript with one entry changed in
  place, the first that holds the id; the entry gets the new text and the class
  \<open>live-pulse\<close> when it carries the id itself. In \<open>updateAmbientLog\<close> (\<open>isUpdate\<close> and
  a non-empty array, the panel's element on the page) the result is the array with its
  last line replaced.
\<close>

theorem replacement_keeps_length:
  assumes "is_partial d" and "transcript document = Some es"
    and "getElementById (sessionKey (session_id d)) document = Some existingItem"
    and "getElementById ''audio-context'' existingItem = None"
    and "el p \<noteq> None" and "logArray p \<noteq> []"
  shows "audio_context d document
           = updateById (sessionKey (session_id d)) (setLiveText (d_context d)) document
       \<and> (\<exists>es'. transcript (audio_context d document) = Some es' \<and> length es' = length es)
       \<and> (getElementById (sessionKey (session_id d)) (withoutTranscript document) = None
            \<longrightarrow> (\<exists>i<length es. (\<forall>j<i. getElementById (sessionKey (session_id d)) (es ! j) = None)
                   \<and> getElementById (sessionKey (session_id d)) (es ! i) = Some existingItem
                   \<and> transcript (audio_context d document)
                       = Some (es[i := updateById (sessionKey (session_id d))
                                          (setLiveText (d_context d)) (es ! i)])
                   \<and> (el_id (attrs (es ! i)) = Some (sessionKey (session_id d))
                        \<longrightarrow> transcript (audio_context d document)
                              = Some (es[i := setLiveText (d_context d) (es ! i)]))))
       \<and> logArray (updateAmbientLog cap p t itemClass True) = butlast (logArray p) @ [t]
       \<and> length (logArray (updateAmbientLog cap p t itemClass True)) = length (logArray p)"
proof -
  let ?key = "sessionKey (session_id d)"
  let ?f = "setLiveText (d_context d)"
  have a: "audio_context d document = updateById ?key ?f document"
    using assms(2,1,3) by (rule audio_context_replace(1))
  have b: "\<exists>es'. transcript (audio_context d document) = Some es' \<and> length es' = length es"
    using assms(2,1,3,4) by (rule audio_context_replace_length)
  have c: "getElementById ?key (withoutTranscript document) = None
            \<longrightarrow> (\<exists>i<length es. (\<forall>j<i. getElementById ?key (es ! j) = None)
                   \<and> getElementById ?key (es ! i) = Some existingItem
                   \<and> transcript (audio_context d document) = Some (es[i := updateById ?key ?f (es ! i)])
                   \<and> (el_id (attrs (es ! i)) = Some ?key
                        \<longrightarrow> transcript (audio_context d document) = Some (es[i := ?f (es ! i)])))"
  proof
    assume "getElementById ?key (withoutTranscript document) = None"
    from audio_context_replace_entry [OF assms(2,1,3) this] obtain i where i: "i < length es"
      "\<forall>j<i. getElementById ?key (es ! j) = None"
      "getElementById ?key (es ! i) = Some existingItem"
      "transcript (audio_context d document) = Some (es[i := updateById ?key ?f (es ! i)])"
      by blast
    have "el_id (attrs (es ! i)) = Some ?key
            \<longrightarrow> transcript (audio_context d document) = Some (es[i := ?f (es ! i)])"
      using i(4) by (simp add: updateById_at_root)
    with i show "\<exists>i<length es. (\<forall>j<i. getElementById ?key (es ! j) = None)
                   \<and> getElementById ?key (es ! i) = Some existingItem
                   \<and> transcript (audio_context d document) = Some (es[i := updateById ?key ?f (es ! i)])
                   \<and> (el_id (attrs (es ! i)) = Some ?key
                        \<longrightarrow> transcript (audio_context d document) = Some (es[i := ?f (es ! i)]))"
      by blast
  qed
  have e: "logArray (updateAmbientLog cap p t itemClass True) = butlast (logArray p) @ [t]"
    using assms(5,6) by (rule updateAmbientLog_replace)
  have "length (butlast (logArray p) @ [t]) = length (logArray p)"
    using assms(6) by simp
  with a b c e show ?thesis by simp
qed

text \<open>
  The example of the claim: \<open>(s1, partial, a)\<close> appended to an empty transcript, then
  \<open>(s1, partial, ab)\<close>, leaves one entry with the content \<open>ab\<close>.
\<close>

theorem replacement_keeps_length_witness:
  "audio_context \<lparr>d_context = ''ab'', session_id = Some ''s1'', is_partial = True\<rparr>
     (audio_context \<lparr>d_context = ''a'', session_id = Some ''s1'', is_partial = True\<rparr> (pageWith []))
     = pageWith [Elem \<lparr>el_id = Some ''session-s1'', classList = [''audio-highlight'', ''live-pulse''],
                       textContent = ''ab'', marginBottom = []\<rparr> []]
   \<and> (\<exists>es'. transcript
          (audio_context \<lparr>d_context = ''ab'', session_id = Some ''s1'', is_partial = True\<rparr>
            (audio_context \<lparr>d_context = ''a'', session_id = Some ''s1'', is_partial = True\<rparr> (pageWith [])))
          = Some es' \<and> length es' = 1)
   \<and> logArray (updateAmbientLog MAX_PANEL_LINES \<lparr>el = Some [], logArray = [''a'']\<rparr> ''ab'' [] True)
       = [''ab'']"
proof -
  let ?d1 = "\<lparr>d_context = ''a'', session_id = Some ''s1'', is_partial = True\<rparr>"
  let ?d2 = "\<lparr>d_context = ''ab'', session_id = Some ''s1'', is_partial = True\<rparr>"
  let ?e1 = "Elem \<lparr>el_id = Some ''session-s1'', classList = [''audio-highlight''],
              textContent = ''a'', marginBottom = []\<rparr> []"
  let ?p = "\<lparr>el = Some [], logArray = [''a'']\<rparr>"
  have first: "audio_context ?d1 (pageWith []) = pageWith [?e1]"
    by (simp add: audio_eval)
  have h1: "is_partial ?d2" by simp
  have h2: "transcript (pageWith [?e1]) = Some [?e1]" by (simp add: audio_eval)
  have h3: "getElementById (sessionKey (session_id ?d2)) (pageWith [?e1]) = Some ?e1"
    by (simp add: audio_eval)
  have h4: "getElementById ''audio-context'' ?e1 = None" by simp
  have h5: "el ?p \<noteq> None" by simp
  have h6: "logArray ?p \<noteq> []" by simp
  from replacement_keeps_length [OF h1 h2 h3 h4 h5 h6, of MAX_PANEL_LINES "''ab''" "[]"]
  show ?thesis by (simp add: first audio_eval)
qed

subsection \<open>The identity rule of the audio transcript\<close>

text \<open>
  Claim C2 as the specification states it does not hold of the listener. A final event
  (\<open>is_partial\<close> false) with the id of the last entry is appended, not merged; the entry
  a partial event replaces is the first one carrying the id, wherever it stands; and an
  event without \<open>session_id\<close> is looked up as \<open>session-undefined\<close>. Each page below is
  built from the page with an empty transcript by the listener itself;
  \<open>spec_identity_rule\<close> shows what the specification's rule gives on the same events.
\<close>

theorem audio_identity_rule_counterexample:
  "audio_context \<lparr>d_context = ''ab'', session_id = Some ''s1'', is_partial = False\<rparr>
     (audio_context \<lparr>d_context = ''a'', session_id = Some ''s1'', is_partial = True\<rparr> (pageWith []))
     = pageWith [Elem \<lparr>el_id = Some ''session-s1'', classList = [''audio-highlight''],
                       textContent = ''a'', marginBottom = []\<rparr> [],
                 Elem \<lparr>el_id = Some ''session-s1'', classList = [''audio-highlight''],
                       textContent = ''ab'', marginBottom = []\<rparr> []]
   \<and> map (\<lambda>e. textContent (attrs e))
        (spec_identity_rule \<lparr>d_context = ''ab'', session_id = Some ''s1'', is_partial = False\<rparr>
          (spec_identity_rule \<lparr>d_context = ''a'', session_id = Some ''s1'', is_partial = True\<rparr> []))
       = [''ab'']
   \<and> audio_context \<lparr>d_context = ''c'', session_id = Some ''s1'', is_partial = True\<rparr>
       (audio_context \<lparr>d_context = ''b'', session_id = Some ''s2'', is_partial = True\<rparr>
         (audio_context \<lparr>d_context = ''a'', session_id = Some ''s1'', is_partial = True\<rparr> (pageWith [])))
     = pageWith [Elem \<lparr>el_id = Some ''session-s1'', classList = [''audio-highlight'', ''live-pulse''],
                       textContent = ''c'', marginBottom = []\<rparr> [],
                 Elem \<lparr>el_id = Some ''session-s2'', classList = [''audio-highlight''],
                       textContent = ''b'', marginBottom = []\<rparr> []]
   \<and> map (\<lambda>e. textContent (attrs e))
        (spec_identity_rule \<lparr>d_context = ''c'', session_id = Some ''s1'', is_partial = True\<rparr>
          (spec_identity_rule \<lparr>d_context = ''b'', session_id = Some ''s2'', is_partial = True\<rparr>
            (spec_identity_rule \<lparr>d_context = ''a'', session_id = Some ''s1'', is_partial = True\<rparr> [])))
       = [''a'', ''b'', ''c'']
   \<and> audio_context \<lparr>d_context = ''b'', session_id = None, is_partial = True\<rparr>
       (audio_context \<lparr>d_context = ''a'', session_id = Some ''undefined'', is_partial = False\<rparr> (pageWith []))
     = pageWith [Elem \<lparr>el_id = Some ''session-undefined'',
                       classList = [''audio-highlight'', ''live-pulse''],
                       textContent = ''b'', marginBottom = []\<rparr> []]"
  by (simp add: audio_eval)

text \<open>
  Claim C2, amended. The listener looks the id \<open>session-\<close>\<open>session_id\<close> up in the whole
  document. For every event delivered while \<open>#audio-context\<close> exists:
  without \<open>session_id\<close>, and with no element of the id \<open>session-undefined\<close>, the event
  appends an entry without id, whatever \<open>is_partial\<close> is. A partial event whose id
  \<open>session-s\<close> an element of the document carries changes the first such element in
  document order, wherever it stands, and appends nothing: the element gets the content
  as its text and the class \<open>live-pulse\<close>, and it is still the element a lookup of the
  id finds; the transcript keeps its length when that element does not contain
  \<open>#audio-context\<close>; and when no element outside the transcript carries the id, the
  transcript changes in exactly one entry, the first that holds the id (all other
  entries and the order stay). Every other event with a \<open>session_id\<close> (final, or no
  element with the id) appends an entry, which carries the id when \<open>s\<close> is not empty.
\<close>

theorem audio_identity_rule:
  assumes "transcript document = Some es"
  shows "(session_id d = None \<and> getElementById ''session-undefined'' document = None
      \<longrightarrow> audio_context d document
            = updateById ''audio-context''
                (appendChild (Elem (createElement\<lparr>classList := [''audio-highlight''],
                                                  textContent := d_context d\<rparr>) [])) document
        \<and> transcript (audio_context d document)
            = Some (es @ [Elem (createElement\<lparr>classList := [''audio-highlight''],
                                              textContent := d_context d\<rparr>) []]))
   \<and> (session_id d = Some s \<and> is_partial d
        \<and> getElementById (''session-'' @ s) document = Some existingItem
      \<longrightarrow> audio_context d document
            = updateById (''session-'' @ s) (setLiveText (d_context d)) document
        \<and> getElementById (''session-'' @ s) (audio_context d document)
            = Some (setLiveText (d_context d) existingItem)
        \<and> (getElementById ''audio-context'' existingItem = None
            \<longrightarrow> (\<exists>es'. transcript (audio_context d document) = Some es' \<and> length es' = length es))
        \<and> (getElementById (''session-'' @ s) (withoutTranscript document) = None
            \<longrightarrow> (\<exists>i<length es. (\<forall>j<i. getElementById (''session-'' @ s) (es ! j) = None)
                   \<and> getElementById (''session-'' @ s) (es ! i) = Some existingItem
                   \<and> transcript (audio_context d document)
                       = Some (es[i := updateById (''session-'' @ s) (setLiveText (d_context d)) (es ! i)])
                   \<and> (el_id (attrs (es ! i)) = Some (''session-'' @ s)
                        \<longrightarrow> transcript (audio_context d document)
                              = Some (es[i := setLiveText (d_context d) (es ! i)])))))
   \<and> (session_id d = Some s
        \<and> (\<not> is_partial d \<or> getElementById (''session-'' @ s) document = None)
      \<longrightarrow> audio_context d document
            = updateById ''audio-context''
                (appendChild (Elem (createElement\<lparr>el_id := (if s \<noteq> [] then Some (''session-'' @ s) else None),
                                                  classList := [''audio-highlight''],
                                                  textContent := d_context d\<rparr>) [])) document
        \<and> transcript (audio_context d document)
            = Some (es @ [Elem (createElement\<lparr>el_id := (if s \<noteq> [] then Some (''session-'' @ s) else None),
                                              classList := [''audio-highlight''],
                                              textContent := d_context d\<rparr>) []]))"
proof (intro conjI impI)
  assume a: "session_id d = None \<and> getElementById ''session-undefined'' document = None"
  then have "\<not> is_partial d \<or> getElementById (sessionKey (session_id d)) document = None"
    by (simp add: sessionKey_def)
  note app = audio_context_append [OF assms this]
  have div: "newSessionDiv d = Elem (createElement\<lparr>classList := [''audio-highlight''],
                                                  textContent := d_context d\<rparr>) []"
    using a by (simp add: newSessionDiv_def createElement_def)
  show "audio_context d document
            = updateById ''audio-context''
                (appendChild (Elem (createElement\<lparr>classList := [''audio-highlight''],
                                                  textContent := d_context d\<rparr>) [])) document"
    using app(1) unfolding div .
  show "transcript (audio_context d document)
            = Some (es @ [Elem (createElement\<lparr>classList := [''audio-highlight''],
                                              textContent := d_context d\<rparr>) []])"
    using app(2) unfolding div .
next
  assume a: "session_id d = Some s \<and> is_partial d
        \<and> getElementById (''session-'' @ s) document = Some existingItem"
  have key: "sessionKey (session_id d) = ''session-'' @ s" using a by (simp add: sessionKey_def)
  have p: "is_partial d" using a by simp
  have m: "getElementById (sessionKey (session_id d)) document = Some existingItem"
    using a key by simp
  note rep = audio_context_replace [OF assms p m]
  show "audio_context d document
            = updateById (''session-'' @ s) (setLiveText (d_context d)) document"
    using rep(1) unfolding key .
  show "getElementById (''session-'' @ s) (audio_context d document)
            = Some (setLiveText (d_context d) existingItem)"
    using rep(2) unfolding key .
  {
    assume "getElementById ''audio-context'' existingItem = None"
    with assms p m show "\<exists>es'. transcript (audio_context d document) = Some es' \<and> length es' = length es"
      by (rule audio_context_replace_length)
  }
  {
    assume "getElementById (''session-'' @ s) (withoutTranscript document) = None"
    then have "getElementById (sessionKey (session_id d)) (withoutTranscript document) = None"
      using key by simp
    from audio_context_replace_entry [OF assms p m this] obtain i where i: "i < length es"
      "\<forall>j<i. getElementById (''session-'' @ s) (es ! j) = None"
      "getElementById (''session-'' @ s) (es ! i) = Some existingItem"
      "transcript (audio_context d document)
         = Some (es[i := updateById (''session-'' @ s) (setLiveText (d_context d)) (es ! i)])"
      unfolding key by blast
    have "el_id (attrs (es ! i)) = Some (''session-'' @ s)
            \<longrightarrow> transcript (audio_context d document)
                  = Some (es[i := setLiveText (d_context d) (es ! i)])"
      using i(4) by (simp add: updateById_at_root)
    with i show "\<exists>i<length es. (\<forall>j<i. getElementById (''session-'' @ s) (es ! j) = None)
                   \<and> getElementById (''session-'' @ s) (es ! i) = Some existingItem
                   \<and> transcript (audio_context d document)
                       = Some (es[i := updateById (''session-'' @ s) (setLiveText (d_context d)) (es ! i)])
                   \<and> (el_id (attrs (es ! i)) = Some (''session-'' @ s)
                        \<longrightarrow> transcript (audio_context d document)
                              = Some (es[i := setLiveText (d_context d) (es ! i)]))"
      by blast
  }
next
  assume a: "session_id d = Some s
        \<and> (\<not> is_partial d \<or> getElementById (''session-'' @ s) document = None)"
  then have "\<not> is_partial d \<or> getElementById (sessionKey (session_id d)) document = None"
    by (simp add: sessionKey_def)
  note app = audio_context_append [OF assms this]
  have div: "newSessionDiv d
      = Elem (createElement\<lparr>el_id := (if s \<noteq> [] then Some (''session-'' @ s) else None),
                            classList := [''audio-highlight''],
                            textContent := d_context d\<rparr>) []"
    using a by (simp add: newSessionDiv_def sessionKey_def)
  show "audio_context d document
            = updateById ''audio-context''
                (appendChild (Elem (createElement\<lparr>el_id := (if s \<noteq> [] then Some (''session-'' @ s) else None),
                                                  classList := [''audio-highlight''],
                                                  textContent := d_context d\<rparr>) [])) document"
    using app(1) unfolding div .
  show "transcript (audio_context d document)
            = Some (es @ [Elem (createElement\<lparr>el_id := (if s \<noteq> [] then Some (''session-'' @ s) else None),
                                              classList := [''audio-highlight''],
                                              textContent := d_context d\<rparr>) []])"
    using app(2) unfolding div .
qed

text \<open>
  Four pages. An event without \<open>session_id\<close> is appended; a partial event replaces the
  first of two entries, whose id it carries; a final event with the id of the last entry
  is appended; and on a page where an element outside \<open>#audio-context\<close> carries the id,
  a partial event overwrites that element and the transcript stays empty.
\<close>

theorem audio_identity_rule_witness:
  "transcript (audio_context \<lparr>d_context = ''b'', session_id = None, is_partial = True\<rparr>
     (pageWith [Elem \<lparr>el_id = Some ''session-s1'', classList = [''audio-highlight''],
                      textContent = ''a'', marginBottom = []\<rparr> []]))
     = Some [Elem \<lparr>el_id = Some ''session-s1'', classList = [''audio-highlight''],
                   textContent = ''a'', marginBottom = []\<rparr> [],
             Elem \<lparr>el_id = None, classList = [''audio-highlight''],
                   textContent = ''b'', marginBottom = []\<rparr> []]
   \<and> audio_context \<lparr>d_context = ''c'', session_id = Some ''s1'', is_partial = True\<rparr>
       (pageWith [Elem \<lparr>el_id = Some ''session-s1'', classList = [''audio-highlight''],
                        textContent = ''a'', marginBottom = []\<rparr> [],
                  Elem \<lparr>el_id = Some ''session-s2'', classList = [''audio-highlight''],
                        textContent = ''b'', marginBottom = []\<rparr> []])
     = pageWith [Elem \<lparr>el_id = Some ''session-s1'', classList = [''audio-highlight'', ''live-pulse''],
                       textContent = ''c'', marginBottom = []\<rparr> [],
                 Elem \<lparr>el_id = Some ''session-s2'', classList = [''audio-highlight''],
                       textContent = ''b'', marginBottom = []\<rparr> []]
   \<and> transcript (audio_context \<lparr>d_context = ''ab'', session_id = Some ''s1'', is_partial = False\<rparr>
       (pageWith [Elem \<lparr>el_id = Some ''session-s1'', classList = [''audio-highlight''],
                        textContent = ''a'', marginBottom = []\<rparr> []]))
     = Some [Elem \<lparr>el_id = Some ''session-s1'', classList = [''audio-highlight''],
                   textContent = ''a'', marginBottom = []\<rparr> [],
             Elem \<lparr>el_id = Some ''session-s1'', classList = [''audio-highlight''],
                   textContent = ''ab'', marginBottom = []\<rparr> []]
   \<and> audio_context \<lparr>d_context = ''a'', session_id = Some ''s1'', is_partial = True\<rparr>
       (Elem createElement
          [Elem \<lparr>el_id = Some ''session-s1'', classList = [], textContent = ''x'', marginBottom = []\<rparr> [],
           Elem (createElement\<lparr>el_id := Some ''audio-context''\<rparr>) []])
     = Elem createElement
          [Elem \<lparr>el_id = Some ''session-s1'', classList = [''live-pulse''], textContent = ''a'',
                 marginBottom = []\<rparr> [],
           Elem (createElement\<lparr>el_id := Some ''audio-context''\<rparr>) []]"
proof -
  let ?a = "Elem \<lparr>el_id = Some ''session-s1'', classList = [''audio-highlight''],
              textContent = ''a'', marginBottom = []\<rparr> []"
  let ?b = "Elem \<lparr>el_id = Some ''session-s2'', classList = [''audio-highlight''],
               textContent = ''b'', marginBottom = []\<rparr> []"
  let ?x = "Elem \<lparr>el_id = Some ''session-s1'', classList = [], textContent = ''x'',
               marginBottom = []\<rparr> []"
  let ?page = "Elem createElement [?x, Elem (createElement\<lparr>el_id := Some ''audio-context''\<rparr>) []]"
  let ?d1 = "\<lparr>d_context = ''b'', session_id = None, is_partial = True\<rparr>"
  let ?d2 = "\<lparr>d_context = ''c'', session_id = Some ''s1'', is_partial = True\<rparr>"
  let ?d3 = "\<lparr>d_context = ''ab'', session_id = Some ''s1'', is_partial = False\<rparr>"
  let ?d4 = "\<lparr>d_context = ''a'', session_id = Some ''s1'', is_partial = True\<rparr>"
  have t1: "transcript (pageWith [?a]) = Some [?a]" by (simp add: audio_eval)
  have t2: "transcript (pageWith [?a, ?b]) = Some [?a, ?b]" by (simp add: audio_eval)
  have t4: "transcript ?page = Some []" by (simp add: audio_eval)
  have one: "transcript (audio_context ?d1 (pageWith [?a]))
     = Some [?a, Elem \<lparr>el_id = None, classList = [''audio-highlight''],
              textContent = ''b'', marginBottom = []\<rparr> []]"
    using audio_identity_rule [OF t1, of ?d1 "[]" ?a] by (simp add: audio_eval)
  have two: "audio_context ?d2 (pageWith [?a, ?b])
     = pageWith [Elem \<lparr>el_id = Some ''session-s1'', classList = [''audio-highlight'', ''live-pulse''],
              textContent = ''c'', marginBottom = []\<rparr> [], ?b]"
    using audio_identity_rule [OF t2, of ?d2 "''s1''" ?a] by (simp add: audio_eval)
  have three: "transcript (audio_context ?d3 (pageWith [?a]))
     = Some [?a, Elem \<lparr>el_id = Some ''session-s1'', classList = [''audio-highlight''],
              textContent = ''ab'', marginBottom = []\<rparr> []]"
    using audio_identity_rule [OF t1, of ?d3 "''s1''" ?a] by (simp add: audio_eval)
  have four: "audio_context ?d4 ?page
     = Elem createElement
          [Elem \<lparr>el_id = Some ''session-s1'', classList = [''live-pulse''], textContent = ''a'',
                 marginBottom = []\<rparr> [],
           Elem (createElement\<lparr>el_id := Some ''audio-context''\<rparr>) []]"
    using audio_identity_rule [OF t4, of ?d4 "''s1''" ?x] by (simp add: audio_eval)
  from one two three four show ?thesis by simp
qed

subsection \<open>The score series and the score log\<close>

lemma logLine_no_score: "d_score d = None \<Longrightarrow> logLine f d = None"
  by (simp add: logLine_def)

lemma recordScore_no_score:
  "d_score d = None \<Longrightarrow> recordScore f d st = Thrown (st\<lparr>scoreLabels := scoreLabels st @ [[]]\<rparr>)"
  by (simp add: recordScore_def Let_def)

lemma recordScore_score:
  "d_score d = Some x \<Longrightarrow> \<exists>st'. recordScore f d st = Returned st'
     \<and> scoreData st' = pushShift CHART_HISTORY_SIZE (scoreData st) (toFixed2 f x)
     \<and> scoreLabels st' = (if length (scoreData st) \<ge> CHART_HISTORY_SIZE then tl (scoreLabels st @ [[]])
                           else scoreLabels st @ [[]])
     \<and> graphLog st' = graphLog st
     \<and> graphDataLogEl st' = graphDataLogEl st
     \<and> interestChart st' = map_option Suc (interestChart st)"
  by (simp add: recordScore_def Let_def pushShift_def)

lemma updateScoreLog_fields:
  "scoreData (stateAfter (updateScoreLog f d st)) = scoreData st"
  "scoreLabels (stateAfter (updateScoreLog f d st)) = scoreLabels st"
  "interestChart (stateAfter (updateScoreLog f d st)) = interestChart st"
  "graphLog (stateAfter (updateScoreLog f d st))
     = (case logLine f d of None \<Rightarrow> graphLog st | Some line \<Rightarrow> pushShift 10 (graphLog st) line)"
  by (simp_all add: updateScoreLog_def Let_def split: option.splits)

lemma event_scored_fields:
  "scoreData (stateAfter (event_scored f d st))
     = (case d_score d of None \<Rightarrow> scoreData st
        | Some x \<Rightarrow> pushShift CHART_HISTORY_SIZE (scoreData st) (toFixed2 f x))"
  "scoreLabels (stateAfter (event_scored f d st))
     = (case d_score d of None \<Rightarrow> scoreLabels st @ [[]]
        | Some x \<Rightarrow> if length (scoreData st) \<ge> CHART_HISTORY_SIZE then tl (scoreLabels st @ [[]])
                     else scoreLabels st @ [[]])"
  "graphLog (stateAfter (event_scored f d st))
     = (case logLine f d of None \<Rightarrow> graphLog st | Some line \<Rightarrow> pushShift 10 (graphLog st) line)"
  "interestChart (stateAfter (event_scored f d st))
     = (case d_score d of None \<Rightarrow> interestChart st | Some x \<Rightarrow> map_option Suc (interestChart st))"
proof -
  show "scoreData (stateAfter (event_scored f d st))
     = (case d_score d of None \<Rightarrow> scoreData st
        | Some x \<Rightarrow> pushShift CHART_HISTORY_SIZE (scoreData st) (toFixed2 f x))"
  proof (cases "d_score d")
    case None
    then show ?thesis by (simp add: event_scored_def recordScore_no_score)
  next
    case (Some x)
    from recordScore_score [OF Some, of f st] obtain st' where
      "recordScore f d st = Returned st'"
      "scoreData st' = pushShift CHART_HISTORY_SIZE (scoreData st) (toFixed2 f x)" by blast
    then show ?thesis using Some by (simp add: event_scored_def updateScoreLog_fields)
  qed
  show "scoreLabels (stateAfter (event_scored f d st))
     = (case d_score d of None \<Rightarrow> scoreLabels st @ [[]]
        | Some x \<Rightarrow> if length (scoreData st) \<ge> CHART_HISTORY_SIZE then tl (scoreLabels st @ [[]])
                     else scoreLabels st @ [[]])"
  proof (cases "d_score d")
    case None
    then show ?thesis by (simp add: event_scored_def recordScore_no_score)
  next
    case (Some x)
    from recordScore_score [OF Some, of f st] obtain st' where
      "recordScore f d st = Returned st'"
      "scoreLabels st' = (if length (scoreData st) \<ge> CHART_HISTORY_SIZE then tl (scoreLabels st @ [[]])
                           else scoreLabels st @ [[]])" by blast
    then show ?thesis using Some by (simp add: event_scored_def updateScoreLog_fields)
  qed
  show "graphLog (stateAfter (event_scored f d st))
     = (case logLine f d of None \<Rightarrow> graphLog st | Some line \<Rightarrow> pushShift 10 (graphLog st) line)"
  proof (cases "d_score d")
    case None
    then show ?thesis by (simp add: event_scored_def recordScore_no_score logLine_no_score)
  next
    case (Some x)
    from recordScore_score [OF Some, of f st] obtain st' where
      "recordScore f d st = Returned st'" "graphLog st' = graphLog st" by blast
    then show ?thesis using Some
      by (simp add: event_scored_def updateScoreLog_fields split: option.splits)
  qed
  show "interestChart (stateAfter (event_scored f d st))
     = (case d_score d of None \<Rightarrow> interestChart st | Some x \<Rightarrow> map_option Suc (interestChart st))"
  proof (cases "d_score d")
    case None
    then show ?thesis by (simp add: event_scored_def recordScore_no_score)
  next
    case (Some x)
    from recordScore_score [OF Some, of f st] obtain st' where
      "recordScore f d st = Returned st'" "interestChart st' = map_option Suc (interestChart st)" by blast
    then show ?thesis using Some by (simp add: event_scored_def updateScoreLog_fields)
  qed
qed

lemma event_scored_legacy_chart:
  "interestChart st \<noteq> None \<Longrightarrow> event_scored_legacy f d st = event_scored f d st"
  by (auto simp add: event_scored_legacy_def event_scored_def)

lemma event_scored_legacy_no_chart:
  "interestChart st = None \<Longrightarrow> event_scored_legacy f d st = updateScoreLog f d st"
  by (simp add: event_scored_legacy_def)

lemma event_scored_legacy_fields:
  "scoreData (stateAfter (event_scored_legacy f d st))
     = (if interestChart st \<noteq> None
        then (case d_score d of None \<Rightarrow> scoreData st
              | Some x \<Rightarrow> pushShift CHART_HISTORY_SIZE (scoreData st) (toFixed2 f x))
        else scoreData st)"
  "scoreLabels (stateAfter (event_scored_legacy f d st))
     = (if interestChart st \<noteq> None
        then (case d_score d of None \<Rightarrow> scoreLabels st @ [[]]
              | Some x \<Rightarrow> if length (scoreData st) \<ge> CHART_HISTORY_SIZE then tl (scoreLabels st @ [[]])
                           else scoreLabels st @ [[]])
        else scoreLabels st)"
  "graphLog (stateAfter (event_scored_legacy f d st))
     = (case logLine f d of None \<Rightarrow> graphLog st | Some line \<Rightarrow> pushShift 10 (graphLog st) line)"
  "(interestChart (stateAfter (event_scored_legacy f d st)) = None) = (interestChart st = None)"
proof -
  show "scoreData (stateAfter (event_scored_legacy f d st))
     = (if interestChart st \<noteq> None
        then (case d_score d of None \<Rightarrow> scoreData st
              | Some x \<Rightarrow> pushShift CHART_HISTORY_SIZE (scoreData st) (toFixed2 f x))
        else scoreData st)"
    by (cases "interestChart st = None")
       (simp_all add: event_scored_legacy_chart event_scored_legacy_no_chart event_scored_fields
          updateScoreLog_fields)
  show "scoreLabels (stateAfter (event_scored_legacy f d st))
     = (if interestChart st \<noteq> None
        then (case d_score d of None \<Rightarrow> scoreLabels st @ [[]]
              | Some x \<Rightarrow> if length (scoreData st) \<ge> CHART_HISTORY_SIZE then tl (scoreLabels st @ [[]])
                           else scoreLabels st @ [[]])
        else scoreLabels st)"
    by (cases "interestChart st = None")
       (simp_all add: event_scored_legacy_chart event_scored_legacy_no_chart event_scored_fields
          updateScoreLog_fields)
  show "graphLog (stateAfter (event_scored_legacy f d st))
     = (case logLine f d of None \<Rightarrow> graphLog st | Some line \<Rightarrow> pushShift 10 (graphLog st) line)"
    by (cases "interestChart st = None")
       (simp_all add: event_scored_legacy_chart event_scored_legacy_no_chart event_scored_fields
          updateScoreLog_fields)
  show "(interestChart (stateAfter (event_scored_legacy f d st)) = None) = (interestChart st = None)"
    by (cases "interestChart st = None")
       (simp_all add: event_scored_legacy_chart event_scored_legacy_no_chart event_scored_fields
          updateScoreLog_fields split: option.splits)
qed

lemma scoreData_foldl:
  "scoreData (foldl (\<lambda>s d. stateAfter (event_scored f d s)) st ds)
     = foldl (pushShift CHART_HISTORY_SIZE) (scoreData st) (map (toFixed2 f) (List.map_filter d_score ds))"
  by (induction ds arbitrary: st)
     (simp_all add: event_scored_fields map_filter_simps split: option.splits)

lemma graphLog_foldl:
  "graphLog (foldl (\<lambda>s d. stateAfter (event_scored f d s)) st ds)
     = foldl (pushShift 10) (graphLog st) (List.map_filter (logLine f) ds)"
  by (induction ds arbitrary: st)
     (simp_all add: event_scored_fields map_filter_simps split: option.splits)

lemma graphLog_legacy_foldl:
  "graphLog (foldl (\<lambda>s d. stateAfter (event_scored_legacy f d s)) st ds)
     = foldl (pushShift 10) (graphLog st) (List.map_filter (logLine f) ds)"
  by (induction ds arbitrary: st)
     (simp_all add: event_scored_legacy_fields map_filter_simps split: option.splits)

lemma pushShift_from_empty:
  "foldl (pushShift c) [] ys = drop (length ys - c) ys"
  using pushShift_foldl [of c "[]" ys] by simp

lemma pushShift_bounded:
  "length arr \<le> c \<Longrightarrow> length (pushShift c arr x) \<le> c"
  by (simp add: pushShift_def Let_def)

lemma pushShift_foldl_bounded:
  "length arr \<le> c \<Longrightarrow> length (foldl (pushShift c) arr xs) \<le> c"
  by (induction xs arbitrary: arr) (simp_all add: pushShift_bounded)

text \<open>
  One event and the difference of the two lengths: a payload with a numeric score leaves
  it as it is, a payload without one adds one to it.
\<close>

lemma event_scored_difference:
  assumes "length (scoreLabels st) = length (scoreData st) + k"
  shows "length (scoreLabels (stateAfter (event_scored f d st)))
           = length (scoreData (stateAfter (event_scored f d st)))
             + k + (if d_score d = None then 1 else 0)"
proof (cases "d_score d")
  case None
  then show ?thesis using assms by (simp add: event_scored_fields)
next
  case (Some x)
  then show ?thesis using assms by (simp add: event_scored_fields pushShift_def Let_def)
qed

lemma event_scored_foldl_difference:
  "length (scoreLabels st) = length (scoreData st) + k \<Longrightarrow>
   length (scoreLabels (foldl (\<lambda>s d. stateAfter (event_scored f d s)) st ds))
     = length (scoreData (foldl (\<lambda>s d. stateAfter (event_scored f d s)) st ds))
       + k + length (filter (\<lambda>d. d_score d = None) ds)"
proof (induction ds arbitrary: st k)
  case Nil
  then show ?case by simp
next
  case (Cons d ds)
  from event_scored_difference [OF Cons.prems, of f d]
  have "length (scoreLabels (stateAfter (event_scored f d st)))
           = length (scoreData (stateAfter (event_scored f d st)))
             + (k + (if d_score d = None then 1 else 0))" by simp
  from Cons.IH [OF this] show ?case by simp
qed

lemma legacy_chart_stays:
  "interestChart st \<noteq> None \<Longrightarrow>
   foldl (\<lambda>s d. stateAfter (event_scored_legacy f d s)) st ds
     = foldl (\<lambda>s d. stateAfter (event_scored f d s)) st ds"
proof (induction ds arbitrary: st)
  case Nil
  then show ?case by simp
next
  case (Cons d ds)
  have "interestChart (stateAfter (event_scored f d st)) \<noteq> None"
    using Cons.prems by (simp add: event_scored_fields split: option.splits)
  from Cons.IH [OF this] Cons.prems show ?case by (simp add: event_scored_legacy_chart)
qed

lemma legacy_no_chart_stays:
  "interestChart st = None \<Longrightarrow>
   scoreLabels (foldl (\<lambda>s d. stateAfter (event_scored_legacy f d s)) st ds) = scoreLabels st
   \<and> scoreData (foldl (\<lambda>s d. stateAfter (event_scored_legacy f d s)) st ds) = scoreData st"
proof (induction ds arbitrary: st)
  case Nil
  then show ?case by simp
next
  case (Cons d ds)
  have "interestChart (stateAfter (event_scored_legacy f d st)) = None"
    using Cons.prems by (simp add: event_scored_legacy_fields)
  from Cons.IH [OF this] Cons.prems show ?case by (simp add: event_scored_legacy_fields)
qed

lemma decimal_small: "n < 10 \<Longrightarrow> decimal n = [digit n]"
  by (subst decimal.simps) simp

lemma decimal_step: "10 \<le> n \<Longrightarrow> decimal n = decimal (n div 10) @ [digit (n mod 10)]"
  by (subst decimal.simps) simp

lemma decimal_nonempty: "decimal n \<noteq> []"
  by (subst decimal.simps) simp

lemma digit_0: "digit 0 = CHR ''0''"
  by (simp add: digit_def)

lemma toFixed2_shape:
  assumes "\<bar>x\<bar> < 10 ^ 21"
  shows "toFixed2 f x = (if x < 0 then ''-'' else []) @ decimal (nat \<lfloor>\<bar>x\<bar> * 100 + 1 / 2\<rfloor> div 100)
            @ ''.'' @ [digit (nat \<lfloor>\<bar>x\<bar> * 100 + 1 / 2\<rfloor> div 10 mod 10),
                       digit (nat \<lfloor>\<bar>x\<bar> * 100 + 1 / 2\<rfloor> mod 10)]"
proof -
  define n where "n = nat \<lfloor>\<bar>x\<bar> * 100 + 1 / 2\<rfloor>"
  let ?dec = "decimal n"
  let ?pad = "if length ?dec \<le> 2 then replicate (3 - length ?dec) (CHR ''0'') @ ?dec else ?dec"
  have split: "take (length ?pad - 2) ?pad = decimal (n div 100)
      \<and> drop (length ?pad - 2) ?pad = [digit (n div 10 mod 10), digit (n mod 10)]"
  proof -
    consider "n < 10" | "10 \<le> n" "n < 100" | "100 \<le> n" by linarith
    then show ?thesis
    proof cases
      case 1
      then have "?dec = [digit n]" by (rule decimal_small)
      moreover have "n div 100 = 0" "n div 10 mod 10 = 0" "n mod 10 = n" using 1 by simp_all
      ultimately show ?thesis by (simp add: decimal_small digit_0 numeral_3_eq_3)
    next
      case 2
      then have a: "?dec = decimal (n div 10) @ [digit (n mod 10)]" by (simp add: decimal_step)
      have "n div 10 < 10" using 2 by simp
      then have b: "decimal (n div 10) = [digit (n div 10)]" by (rule decimal_small)
      have "n div 100 = 0" "n div 10 mod 10 = n div 10" using 2 by simp_all
      then show ?thesis using a b by (simp add: decimal_small digit_0)
    next
      case 3
      then have a: "?dec = decimal (n div 10) @ [digit (n mod 10)]" by (simp add: decimal_step)
      have "10 \<le> n div 10" using 3 by simp
      then have b: "decimal (n div 10) = decimal (n div 10 div 10) @ [digit (n div 10 mod 10)]"
        by (simp add: decimal_step)
      have c: "n div 10 div 10 = n div 100" by (simp add: div_mult2_eq)
      have "?dec = decimal (n div 100) @ [digit (n div 10 mod 10), digit (n mod 10)]"
        using a b c by simp
      then show ?thesis using decimal_nonempty [of "n div 100"]
        by (cases "decimal (n div 100)") simp_all
    qed
  qed
  have "toFixed2 f x = (if x < 0 then ''-'' else []) @ take (length ?pad - 2) ?pad @ ''.'' @ drop (length ?pad - 2) ?pad"
    using assms by (simp add: toFixed2_def Let_def n_def)
  then show ?thesis using split by (simp add: n_def)
qed

lemma toFixed2_close:
  "\<bar>real (nat \<lfloor>\<bar>x\<bar> * 100 + 1 / 2\<rfloor>) / 100 - \<bar>x\<bar>\<bar> \<le> 1 / 200"
proof -
  let ?y = "\<bar>x\<bar> * 100 + 1 / 2"
  have nonneg: "0 \<le> \<lfloor>?y\<rfloor>" by simp
  then have n: "real (nat \<lfloor>?y\<rfloor>) = of_int \<lfloor>?y\<rfloor>" by simp
  have "of_int \<lfloor>?y\<rfloor> \<le> ?y" by (rule of_int_floor_le)
  moreover have "?y < of_int \<lfloor>?y\<rfloor> + 1" by (rule real_of_int_floor_add_one_gt)
  ultimately show ?thesis unfolding n by linarith
qed

text \<open>
  One step of each bounded feed keeps it within its bound: a panel array, the child
  elements of a chat log, the score array and the score log, whether the score listener
  returns or throws.
\<close>

lemma bounded_feeds_stay_bounded:
  "length (logArray p) \<le> cap \<Longrightarrow> length (logArray (updateAmbientLog cap p t itemClass isUpdate)) \<le> cap"
  "appendLog cap element html = Some ms \<Longrightarrow> length (children ms) \<le> cap"
  "length (scoreData st) \<le> CHART_HISTORY_SIZE
     \<Longrightarrow> length (scoreData (stateAfter (event_scored f d st))) \<le> CHART_HISTORY_SIZE"
  "length (graphLog st) \<le> 10 \<Longrightarrow> length (graphLog (stateAfter (event_scored f d st))) \<le> 10"
proof -
  show "length (logArray p) \<le> cap
      \<Longrightarrow> length (logArray (updateAmbientLog cap p t itemClass isUpdate)) \<le> cap"
    by (cases "el p") (simp_all add: updateAmbientLog_def Let_def pushShift_bounded)
  show "appendLog cap element html = Some ms \<Longrightarrow> length (children ms) \<le> cap"
    by (cases element) (auto simp add: appendLog_def children_removeFirstWhileOver)
  show "length (scoreData st) \<le> CHART_HISTORY_SIZE
     \<Longrightarrow> length (scoreData (stateAfter (event_scored f d st))) \<le> CHART_HISTORY_SIZE"
    by (simp add: event_scored_fields pushShift_bounded split: option.splits)
  show "length (graphLog st) \<le> 10 \<Longrightarrow> length (graphLog (stateAfter (event_scored f d st))) \<le> 10"
    by (simp add: event_scored_fields pushShift_bounded split: option.splits)
qed

text \<open>
  The listeners themselves: from an empty array the two panels hold the last
  \<open>MAX_PANEL_LINES\<close> lines they were sent, and the chat logs never hold more than
  \<open>MAX_LOG_LINES\<close> lines.
\<close>

lemma panel_listeners_keep_last:
  assumes "el p \<noteq> None" and "logArray p = []"
  shows "logArray (foldl (\<lambda>q t. vision_context t q) p ts) = drop (length ts - MAX_PANEL_LINES) ts"
    and "logArray (foldl (\<lambda>q t. spoken_word_context t q) p ts) = drop (length ts - MAX_PANEL_LINES) ts"
proof -
  from assms(1) obtain e where e: "el p = Some e" by auto
  have "foldl (pushShift MAX_PANEL_LINES) (logArray p) ts = drop (length ts - MAX_PANEL_LINES) ts"
    using pushShift_from_empty [of MAX_PANEL_LINES ts] assms(2) by simp
  then have "logArray (foldl (\<lambda>q t. updateAmbientLog MAX_PANEL_LINES q t [] False) p ts)
      = drop (length ts - MAX_PANEL_LINES) ts"
    using updateAmbientLog_foldl [OF e, of MAX_PANEL_LINES "[]" ts] by simp
  then show "logArray (foldl (\<lambda>q t. vision_context t q) p ts) = drop (length ts - MAX_PANEL_LINES) ts"
    and "logArray (foldl (\<lambda>q t. spoken_word_context t q) p ts) = drop (length ts - MAX_PANEL_LINES) ts"
    by (simp_all add: vision_context_def spoken_word_context_def)
qed

lemma chat_listeners_bounded:
  "twitch_message parseHTML d chatLog = Some ms \<Longrightarrow> length (children ms) \<le> MAX_LOG_LINES"
  "namiReplies (bot_reply enc parseHTML siren page r logs) = Some ms
     \<Longrightarrow> length (children ms) \<le> MAX_LOG_LINES"
  "twitchMessages (bot_reply enc parseHTML siren page r logs) = Some ms
     \<Longrightarrow> length (children ms) \<le> MAX_LOG_LINES"
  by (simp_all add: twitch_message_def bot_reply_def bounded_feeds_stay_bounded)

text \<open>
  Payloads that carry a numeric score keep the two arrays of the chart in step, in both
  entry points: one event pushes onto both; when the score array then holds more than
  \<open>CHART_HISTORY_SIZE\<close> values, both arrays lose their first entry in the same step,
  and otherwise neither does.
\<close>

lemma numeric_scores_stay_in_step:
  assumes "length (scoreLabels st) = length (scoreData st)" and "\<forall>d\<in>set ds. d_score d \<noteq> None"
  shows "length (scoreLabels (foldl (\<lambda>s d. stateAfter (event_scored f d s)) st ds))
           = length (scoreData (foldl (\<lambda>s d. stateAfter (event_scored f d s)) st ds))"
    and "length (scoreLabels (foldl (\<lambda>s d. stateAfter (event_scored_legacy f d s)) st ds))
           = length (scoreData (foldl (\<lambda>s d. stateAfter (event_scored_legacy f d s)) st ds))"
proof -
  have none: "filter (\<lambda>d. d_score d = None) ds = []" using assms(2) by (simp add: filter_empty_conv)
  have "length (scoreLabels st) = length (scoreData st) + 0" using assms(1) by simp
  from event_scored_foldl_difference [OF this, of f ds] none
  show a: "length (scoreLabels (foldl (\<lambda>s d. stateAfter (event_scored f d s)) st ds))
           = length (scoreData (foldl (\<lambda>s d. stateAfter (event_scored f d s)) st ds))"
    by simp
  show "length (scoreLabels (foldl (\<lambda>s d. stateAfter (event_scored_legacy f d s)) st ds))
           = length (scoreData (foldl (\<lambda>s d. stateAfter (event_scored_legacy f d s)) st ds))"
  proof (cases "interestChart st = None")
    case True
    from legacy_no_chart_stays [OF this, of f ds] assms(1) show ?thesis by simp
  next
    case False
    from legacy_chart_stays [OF this, of f ds] a show ?thesis by simp
  qed
qed

lemma numeric_score_evicts_pair:
  assumes "length (scoreLabels st) = length (scoreData st)" and "d_score d = Some x"
  shows "CHART_HISTORY_SIZE \<le> length (scoreData st) \<Longrightarrow>
            scoreLabels (stateAfter (event_scored f d st)) = tl (scoreLabels st) @ [[]]
            \<and> scoreData (stateAfter (event_scored f d st)) = tl (scoreData st) @ [toFixed2 f x]"
    and "length (scoreData st) < CHART_HISTORY_SIZE \<Longrightarrow>
            scoreLabels (stateAfter (event_scored f d st)) = scoreLabels st @ [[]]
            \<and> scoreData (stateAfter (event_scored f d st)) = scoreData st @ [toFixed2 f x]"
proof -
  assume full: "CHART_HISTORY_SIZE \<le> length (scoreData st)"
  then have "scoreData st \<noteq> []" "scoreLabels st \<noteq> []"
    using assms(1) by (auto simp add: CHART_HISTORY_SIZE_def)
  then show "scoreLabels (stateAfter (event_scored f d st)) = tl (scoreLabels st) @ [[]]
            \<and> scoreData (stateAfter (event_scored f d st)) = tl (scoreData st) @ [toFixed2 f x]"
    using full assms(2) by (simp add: event_scored_fields pushShift_def Let_def)
next
  assume "length (scoreData st) < CHART_HISTORY_SIZE"
  then show "scoreLabels (stateAfter (event_scored f d st)) = scoreLabels st @ [[]]
            \<and> scoreData (stateAfter (event_scored f d st)) = scoreData st @ [toFixed2 f x]"
    using assms(2) by (simp add: event_scored_fields pushShift_def Let_def)
qed

text \<open>
  Claim C5 does not hold of the listener. It pushes the label first and
  \<open>data.score.toFixed(2)\<close> second, and nothing checks the payload before: a payload
  whose \<open>score\<close> is missing (or is not a number) makes \<open>toFixed\<close> throw after the label
  is pushed, so the label array is one longer than the score array, and no later event
  brings them back together. From arrays of equal length, after any sequence of events
  the label array is longer than the score array by the number of payloads without a
  numeric score; the same in the older entry point once the chart exists.
\<close>

theorem score_series_desynchronizes:
  assumes "length (scoreLabels st) = length (scoreData st)"
  shows "length (scoreLabels (foldl (\<lambda>s d. stateAfter (event_scored f d s)) st ds))
           = length (scoreData (foldl (\<lambda>s d. stateAfter (event_scored f d s)) st ds))
             + length (filter (\<lambda>d. d_score d = None) ds)
       \<and> (interestChart st \<noteq> None \<longrightarrow>
            length (scoreLabels (foldl (\<lambda>s d. stateAfter (event_scored_legacy f d s)) st ds))
              = length (scoreData (foldl (\<lambda>s d. stateAfter (event_scored_legacy f d s)) st ds))
                + length (filter (\<lambda>d. d_score d = None) ds))
       \<and> (d_score d = None \<longrightarrow>
            event_scored f d st = Thrown (st\<lparr>scoreLabels := scoreLabels st @ [[]]\<rparr>))
       \<and> (d_score d = None \<and> interestChart st \<noteq> None \<longrightarrow>
            event_scored_legacy f d st = Thrown (st\<lparr>scoreLabels := scoreLabels st @ [[]]\<rparr>))"
proof -
  have "length (scoreLabels st) = length (scoreData st) + 0" using assms by simp
  from event_scored_foldl_difference [OF this, of f ds]
  have a: "length (scoreLabels (foldl (\<lambda>s d. stateAfter (event_scored f d s)) st ds))
           = length (scoreData (foldl (\<lambda>s d. stateAfter (event_scored f d s)) st ds))
             + length (filter (\<lambda>d. d_score d = None) ds)"
    by simp
  have b: "interestChart st \<noteq> None \<longrightarrow>
            length (scoreLabels (foldl (\<lambda>s d. stateAfter (event_scored_legacy f d s)) st ds))
              = length (scoreData (foldl (\<lambda>s d. stateAfter (event_scored_legacy f d s)) st ds))
                + length (filter (\<lambda>d. d_score d = None) ds)"
    using a by (simp add: legacy_chart_stays)
  have c: "d_score d = None \<longrightarrow>
            event_scored f d st = Thrown (st\<lparr>scoreLabels := scoreLabels st @ [[]]\<rparr>)"
    by (simp add: event_scored_def recordScore_no_score)
  have e: "d_score d = None \<and> interestChart st \<noteq> None \<longrightarrow>
            event_scored_legacy f d st = Thrown (st\<lparr>scoreLabels := scoreLabels st @ [[]]\<rparr>)"
    by (simp add: event_scored_legacy_chart event_scored_def recordScore_no_score)
  from a b c e show ?thesis by simp
qed

text \<open>
  On the freshly loaded dashboard, a payload \<open>{source: 'chat', text: 'hi'}\<close> without
  \<open>score\<close>: the listener throws with one label and no score. A well-formed event after
  it leaves two labels and one score. The older entry point does the same once the
  drawer has created the chart.
\<close>

theorem score_series_desynchronizes_witness:
  "event_scored (\<lambda>_. []) \<lparr>d_score = None, d_source = Some ''chat'', d_text = Some ''hi''\<rparr>
      (initial_score_state None)
     = Thrown \<lparr>scoreLabels = [[]], scoreData = [], interestChart = None, graphLog = [],
               graphDataLogEl = None\<rparr>
   \<and> length (scoreLabels (foldl (\<lambda>s d. stateAfter (event_scored (\<lambda>_. []) d s)) (initial_score_state None)
       [\<lparr>d_score = None, d_source = Some ''chat'', d_text = Some ''hi''\<rparr>,
        \<lparr>d_score = Some (1 / 2), d_source = Some ''chat'', d_text = Some ''hello''\<rparr>]))
     = 2
   \<and> length (scoreData (foldl (\<lambda>s d. stateAfter (event_scored (\<lambda>_. []) d s)) (initial_score_state None)
       [\<lparr>d_score = None, d_source = Some ''chat'', d_text = Some ''hi''\<rparr>,
        \<lparr>d_score = Some (1 / 2), d_source = Some ''chat'', d_text = Some ''hello''\<rparr>]))
     = 1
   \<and> event_scored_legacy (\<lambda>_. []) \<lparr>d_score = None, d_source = Some ''chat'', d_text = Some ''hi''\<rparr>
      ((initial_score_state None)\<lparr>interestChart := Some 0\<rparr>)
     = Thrown \<lparr>scoreLabels = [[]], scoreData = [], interestChart = Some 0, graphLog = [],
               graphDataLogEl = None\<rparr>"
proof -
  let ?bad = "\<lparr>d_score = None, d_source = Some ''chat'', d_text = Some ''hi''\<rparr>"
  let ?good = "\<lparr>d_score = Some (1 / 2), d_source = Some ''chat'', d_text = Some ''hello''\<rparr>"
  let ?st = "initial_score_state None"
  let ?st' = "(initial_score_state None)\<lparr>interestChart := Some 0\<rparr>"
  have h: "length (scoreLabels ?st) = length (scoreData ?st)" by (simp add: initial_score_state_def)
  have h': "length (scoreLabels ?st') = length (scoreData ?st')" by (simp add: initial_score_state_def)
  from score_series_desynchronizes [OF h, of "\<lambda>_. []" "[?bad, ?good]" ?bad]
       score_series_desynchronizes [OF h', of "\<lambda>_. []" "[]" ?bad]
  show ?thesis
    by (simp add: initial_score_state_def event_scored_fields pushShift_def CHART_HISTORY_SIZE_def
        toFixed2_def Let_def decimal.simps digit_def)
qed

text \<open>
  Claim C9. From an empty score log, any sequence of \<open>event_scored\<close> events leaves in
  \<open>graphLog\<close> the last ten formatted lines in their order (all of them when there are
  fewer), so at most ten, in both entry points; ten is none of the bounds 20, 50, 100.
  The lines are those of the events whose line can be built: an event without a numeric
  score or without a text throws before it logs anything.
\<close>

theorem graph_log_keeps_last_ten:
  assumes "graphLog st = []"
  shows "graphLog (foldl (\<lambda>s d. stateAfter (event_scored f d s)) st ds)
           = drop (length (List.map_filter (logLine f) ds) - 10) (List.map_filter (logLine f) ds)
       \<and> length (graphLog (foldl (\<lambda>s d. stateAfter (event_scored f d s)) st ds)) \<le> 10
       \<and> graphLog (foldl (\<lambda>s d. stateAfter (event_scored_legacy f d s)) st ds)
           = drop (length (List.map_filter (logLine f) ds) - 10) (List.map_filter (logLine f) ds)
       \<and> length (graphLog (foldl (\<lambda>s d. stateAfter (event_scored_legacy f d s)) st ds)) \<le> 10
       \<and> 10 \<notin> {MAX_PANEL_LINES, CHART_HISTORY_SIZE, MAX_LOG_LINES}"
proof -
  have "foldl (pushShift 10) (graphLog st) (List.map_filter (logLine f) ds)
      = drop (length (List.map_filter (logLine f) ds) - 10) (List.map_filter (logLine f) ds)"
    using pushShift_from_empty [of 10 "List.map_filter (logLine f) ds"] assms by simp
  then show ?thesis
    by (simp add: graphLog_foldl graphLog_legacy_foldl MAX_PANEL_LINES_def CHART_HISTORY_SIZE_def
        MAX_LOG_LINES_def)
qed

text \<open>
  Eleven events: the first line is gone, and the last line shows the text cut to thirty
  code units.
\<close>

theorem graph_log_keeps_last_ten_witness:
  "graphLog (foldl (\<lambda>s d. stateAfter (event_scored (\<lambda>_. []) d s)) (initial_score_state None)
      [\<lparr>d_score = Some (1 / 4), d_source = Some ''chat'', d_text = Some ''the first line is evicted''\<rparr>,
       \<lparr>d_score = Some (1 / 2), d_source = Some ''chat'', d_text = Some ''2''\<rparr>,
       \<lparr>d_score = Some (1 / 2), d_source = Some ''chat'', d_text = Some ''3''\<rparr>,
       \<lparr>d_score = Some (1 / 2), d_source = Some ''chat'', d_text = Some ''4''\<rparr>,
       \<lparr>d_score = Some (1 / 2), d_source = Some ''chat'', d_text = Some ''5''\<rparr>,
       \<lparr>d_score = Some (1 / 2), d_source = Some ''chat'', d_text = Some ''6''\<rparr>,
       \<lparr>d_score = Some (1 / 2), d_source = Some ''chat'', d_text = Some ''7''\<rparr>,
       \<lparr>d_score = Some (1 / 2), d_source = Some ''chat'', d_text = Some ''8''\<rparr>,
       \<lparr>d_score = Some (1 / 2), d_source = Some ''chat'', d_text = Some ''9''\<rparr>,
       \<lparr>d_score = Some (1 / 2), d_source = Some ''chat'', d_text = Some ''10''\<rparr>,
       \<lparr>d_score = Some (3 / 2), d_source = Some ''vision'',
        d_text = Some ''a text of more than thirty code units''\<rparr>])
   = [''0.50 - chat: 2...'', ''0.50 - chat: 3...'', ''0.50 - chat: 4...'',
      ''0.50 - chat: 5...'', ''0.50 - chat: 6...'', ''0.50 - chat: 7...'',
      ''0.50 - chat: 8...'', ''0.50 - chat: 9...'', ''0.50 - chat: 10...'',
      ''1.50 - vision: a text of more than thirty cod...'']"
proof -
  have h: "graphLog (initial_score_state None) = []" by (simp add: initial_score_state_def)
  have half: "toFixed2 (\<lambda>_. []) (1 / 2) = ''0.50''"
    by (simp add: toFixed2_def Let_def decimal.simps digit_def)
  have quarter: "toFixed2 (\<lambda>_. []) (1 / 4) = ''0.25''"
    by (simp add: toFixed2_def Let_def decimal.simps digit_def)
  have three_halves: "toFixed2 (\<lambda>_. []) (3 / 2) = ''1.50''"
    by (simp add: toFixed2_def Let_def decimal.simps digit_def)
  show ?thesis
    unfolding graph_log_keeps_last_ten [OF h, THEN conjunct1]
    by (simp add: logLine_def half quarter three_halves map_filter_simps)
qed

text \<open>
  Claim C6 as the specification states it does not hold: the listener stores
  \<open>score.toFixed(2)\<close>, a string of the score rounded to two decimals. The scores
  \<open>0.125\<close> and \<open>0.1328125\<close> are both retained as \<open>0.13\<close>.
\<close>

theorem score_stored_raw_counterexample:
  "scoreData (stateAfter (event_scored (\<lambda>_. [])
      \<lparr>d_score = Some (1 / 8), d_source = Some ''chat'', d_text = Some ''hi''\<rparr>
      (initial_score_state None))) = [''0.13'']
   \<and> scoreData (stateAfter (event_scored (\<lambda>_. [])
      \<lparr>d_score = Some (17 / 128), d_source = Some ''chat'', d_text = Some ''hi''\<rparr>
      (initial_score_state None))) = [''0.13'']"
  by (simp add: event_scored_fields pushShift_def initial_score_state_def CHART_HISTORY_SIZE_def
      toFixed2_def Let_def decimal.simps digit_def)

text \<open>
  Claim C6, amended. The series retains, for the last \<open>CHART_HISTORY_SIZE\<close> events
  that carry a numeric score, the string \<open>score.toFixed(2)\<close>. For a score of magnitude
  below \<open>10^21\<close> that is the sign, the decimal digits of \<open>n div 100\<close>, a point and the
  two digits of \<open>n mod 100\<close>, where \<open>n\<close> is \<open>100 * |score|\<close> rounded to the nearest
  integer (half up); the number it denotes differs from the score by at most \<open>0.005\<close>.
  Nothing is clamped: scores outside \<open>[0, 1]\<close> are printed like all others.
\<close>

theorem score_stored_as_fixed_string:
  assumes "scoreData st = []" and "\<bar>x\<bar> < 10 ^ 21"
  shows "scoreData (foldl (\<lambda>s d. stateAfter (event_scored f d s)) st ds)
           = drop (length (List.map_filter d_score ds) - CHART_HISTORY_SIZE)
               (map (toFixed2 f) (List.map_filter d_score ds))
       \<and> toFixed2 f x
           = (if x < 0 then ''-'' else []) @ decimal (nat \<lfloor>\<bar>x\<bar> * 100 + 1 / 2\<rfloor> div 100)
             @ ''.'' @ [digit (nat \<lfloor>\<bar>x\<bar> * 100 + 1 / 2\<rfloor> div 10 mod 10),
                        digit (nat \<lfloor>\<bar>x\<bar> * 100 + 1 / 2\<rfloor> mod 10)]
       \<and> \<bar>real (nat \<lfloor>\<bar>x\<bar> * 100 + 1 / 2\<rfloor>) / 100 - \<bar>x\<bar>\<bar> \<le> 1 / 200"
proof -
  have "foldl (pushShift CHART_HISTORY_SIZE) (scoreData st) (map (toFixed2 f) (List.map_filter d_score ds))
      = drop (length (List.map_filter d_score ds) - CHART_HISTORY_SIZE)
          (map (toFixed2 f) (List.map_filter d_score ds))"
    using pushShift_from_empty [of CHART_HISTORY_SIZE "map (toFixed2 f) (List.map_filter d_score ds)"]
      assms(1)
    by simp
  then have "scoreData (foldl (\<lambda>s d. stateAfter (event_scored f d s)) st ds)
           = drop (length (List.map_filter d_score ds) - CHART_HISTORY_SIZE)
               (map (toFixed2 f) (List.map_filter d_score ds))"
    by (simp add: scoreData_foldl)
  with toFixed2_shape [OF assms(2), of f] toFixed2_close [of x] show ?thesis by simp
qed

theorem score_stored_as_fixed_string_witness:
  "scoreData (foldl (\<lambda>s d. stateAfter (event_scored (\<lambda>_. []) d s)) (initial_score_state None)
      [\<lparr>d_score = Some (157 / 100), d_source = Some ''chat'', d_text = Some ''above one''\<rparr>,
       \<lparr>d_score = Some (- (1 / 2)), d_source = Some ''chat'', d_text = Some ''below zero''\<rparr>])
     = [''1.57'', ''-0.50'']
   \<and> toFixed2 (\<lambda>_. []) (157 / 100) = ''1.57''
   \<and> \<bar>real (nat \<lfloor>\<bar>157 / 100 :: real\<bar> * 100 + 1 / 2\<rfloor>) / 100 - \<bar>157 / 100\<bar>\<bar> \<le> 1 / 200"
proof -
  have h1: "scoreData (initial_score_state None) = []" by (simp add: initial_score_state_def)
  have h2: "\<bar>157 / 100 :: real\<bar> < 10 ^ 21" by simp
  have a: "toFixed2 (\<lambda>_. []) (157 / 100) = ''1.57''"
    by (simp add: toFixed2_def Let_def decimal.simps digit_def)
  have b: "toFixed2 (\<lambda>_. []) (- (1 / 2)) = ''-0.50''"
    by (simp add: toFixed2_def Let_def decimal.simps digit_def)
  from score_stored_as_fixed_string [OF h1 h2, of "\<lambda>_. []"
      "[\<lparr>d_score = Some (157 / 100), d_source = Some ''chat'', d_text = Some ''above one''\<rparr>,
       \<lparr>d_score = Some (- (1 / 2)), d_source = Some ''chat'', d_text = Some ''below zero''\<rparr>]"]
  show ?thesis by (simp add: a b CHART_HISTORY_SIZE_def map_filter_simps)
qed

subsection \<open>Opening the drawer that is open\<close>

lemma callStop_frame:
  "currentDebugDrawer (callStop st fn) = currentDebugDrawer st"
  "drawer (callStop st fn) = drawer st"
  "overlay (callStop st fn) = overlay st"
  "content (callStop st fn) = content st"
  "navBtns (callStop st fn) = navBtns st"
  "windowFns (callStop st fn) = windowFns st"
  by (simp_all add: callStop_def split: option.splits)

lemma callStop_effects:
  "effects (callStop st fn)
     = effects st @ (case windowFns st fn of
                       None \<Rightarrow> []
                     | Some throws \<Rightarrow> Called fn
                         # (if throws then [ConsoleWarn (''[Drawer] Error stopping '' @ fn @ '':'')]
                            else []))"
  by (simp add: callStop_def split: option.splits)

lemma stopAll_frame:
  "currentDebugDrawer (foldl callStop st fns) = currentDebugDrawer st
   \<and> drawer (foldl callStop st fns) = drawer st
   \<and> overlay (foldl callStop st fns) = overlay st
   \<and> content (foldl callStop st fns) = content st
   \<and> navBtns (foldl callStop st fns) = navBtns st
   \<and> windowFns (foldl callStop st fns) = windowFns st"
  by (induction fns arbitrary: st) (simp_all add: callStop_frame)

lemma stopAll_effects:
  "filter isFetched (effects (foldl callStop st fns)) = filter isFetched (effects st)
   \<and> (\<forall>fn\<in>set fns. windowFns st fn \<noteq> None \<longrightarrow> Called fn \<in> set (effects (foldl callStop st fns)))
   \<and> set (effects st) \<subseteq> set (effects (foldl callStop st fns))"
proof (induction fns arbitrary: st)
  case Nil
  then show ?case by simp
next
  case (Cons fn fns)
  let ?st = "callStop st fn"
  have f: "filter isFetched (effects ?st) = filter isFetched (effects st)"
    by (simp add: callStop_effects split: option.splits)
  have w: "windowFns ?st = windowFns st" by (rule callStop_frame)
  have sub: "set (effects st) \<subseteq> set (effects ?st)"
    by (auto simp add: callStop_effects)
  have called: "windowFns st fn \<noteq> None \<longrightarrow> Called fn \<in> set (effects ?st)"
    by (auto simp add: callStop_effects)
  from Cons.IH [of ?st] f w sub called show ?case by auto
qed

lemma closeDebugDrawer_current: "currentDebugDrawer (closeDebugDrawer st) = None"
  by (simp add: closeDebugDrawer_def Let_def)

lemma stopAllDrawerRefreshes_frame:
  "currentDebugDrawer (stopAllDrawerRefreshes st) = currentDebugDrawer st"
  "drawer (stopAllDrawerRefreshes st) = drawer st"
  "overlay (stopAllDrawerRefreshes st) = overlay st"
  "content (stopAllDrawerRefreshes st) = content st"
  using stopAll_frame [of st stopFunctions] by (simp_all add: stopAllDrawerRefreshes_def)

lemma openDebugDrawer_elements:
  assumes "currentDebugDrawer st \<noteq> None \<longrightarrow> drawer st \<noteq> None \<and> overlay st \<noteq> None \<and> content st \<noteq> None"
  shows "currentDebugDrawer (openDebugDrawer fetch scriptsOf drawerName st) \<noteq> None
     \<longrightarrow> drawer (openDebugDrawer fetch scriptsOf drawerName st) \<noteq> None
       \<and> overlay (openDebugDrawer fetch scriptsOf drawerName st) \<noteq> None
       \<and> content (openDebugDrawer fetch scriptsOf drawerName st) \<noteq> None"
proof (cases "drawer st = None \<or> overlay st = None \<or> content st = None")
  case True
  then show ?thesis using assms by (auto simp add: openDebugDrawer_def)
next
  case False
  show ?thesis
  proof (cases "currentDebugDrawer st = Some drawerName")
    case True
    then show ?thesis using False by (simp add: openDebugDrawer_def closeDebugDrawer_current)
  next
    case other: False
    show ?thesis using False other
      by (auto simp add: openDebugDrawer_def Let_def stopAllDrawerRefreshes_frame
          split: response.splits)
  qed
qed

lemma reachable_elements:
  "reachable st \<Longrightarrow>
   currentDebugDrawer st \<noteq> None \<longrightarrow> drawer st \<noteq> None \<and> overlay st \<noteq> None \<and> content st \<noteq> None"
proof (induction rule: reachable.induct)
  case (loaded st)
  then show ?case by simp
next
  case (opened st fetch scriptsOf drawerName)
  from opened.IH show ?case by (rule openDebugDrawer_elements)
next
  case (closed st)
  then show ?case by (simp add: closeDebugDrawer_current)
next
  case (timer st drawerName)
  then show ?case by (simp add: startRefreshTimer_def split: option.splits)
next
  case (scripted st fns)
  then show ?case by simp
qed

lemma refreshFnName_thread_stats: "refreshFnName ''thread_stats'' = ''startThreadstatsRefresh''"
  by code_simp

text \<open>
  Claim C10. In every state the page can reach, \<open>openDebugDrawer\<close> called with the name
  of the drawer that is open does what \<open>closeDebugDrawer\<close> does and nothing else:
  \<open>currentDebugDrawer\<close> is cleared, \<open>open\<close> and \<open>visible\<close> are taken off the drawer and the
  overlay, every stop function that is defined is called, nothing is fetched and the
  content stays as it is. (A drawer is open only on a page that has the three drawer
  elements, so the guard at the head of the function does not apply.)
\<close>

theorem open_same_drawer_closes:
  assumes "reachable st" and "currentDebugDrawer st = Some drawerName"
  shows "openDebugDrawer fetch scriptsOf drawerName st = closeDebugDrawer st
       \<and> currentDebugDrawer (openDebugDrawer fetch scriptsOf drawerName st) = None
       \<and> content (openDebugDrawer fetch scriptsOf drawerName st) = content st
       \<and> filter isFetched (effects (openDebugDrawer fetch scriptsOf drawerName st))
           = filter isFetched (effects st)
       \<and> (\<forall>fn\<in>set stopFunctions. windowFns st fn \<noteq> None
             \<longrightarrow> Called fn \<in> set (effects (openDebugDrawer fetch scriptsOf drawerName st)))
       \<and> drawer (openDebugDrawer fetch scriptsOf drawerName st)
           = map_option (classList_remove ''open'') (drawer st)
       \<and> overlay (openDebugDrawer fetch scriptsOf drawerName st)
           = map_option (classList_remove ''visible'') (overlay st)"
proof -
  let ?st1 = "st\<lparr>drawer := map_option (classList_remove ''open'') (drawer st),
                    overlay := map_option (classList_remove ''visible'') (overlay st)\<rparr>"
  have present: "drawer st \<noteq> None \<and> overlay st \<noteq> None \<and> content st \<noteq> None"
    using reachable_elements [OF assms(1)] assms(2) by simp
  have eq: "openDebugDrawer fetch scriptsOf drawerName st = closeDebugDrawer st"
    using present assms(2) by (auto simp add: openDebugDrawer_def)
  have frame: "content (foldl callStop ?st1 stopFunctions) = content st"
    "drawer (foldl callStop ?st1 stopFunctions) = map_option (classList_remove ''open'') (drawer st)"
    "overlay (foldl callStop ?st1 stopFunctions) = map_option (classList_remove ''visible'') (overlay st)"
    using stopAll_frame [of ?st1 stopFunctions] by simp_all
  have eff: "filter isFetched (effects (foldl callStop ?st1 stopFunctions)) = filter isFetched (effects st)"
    "\<forall>fn\<in>set stopFunctions. windowFns st fn \<noteq> None
        \<longrightarrow> Called fn \<in> set (effects (foldl callStop ?st1 stopFunctions))"
    using stopAll_effects [of ?st1 stopFunctions] by simp_all
  show ?thesis
    unfolding eq using frame eff
    by (simp add: closeDebugDrawer_def stopAllDrawerRefreshes_def Let_def)
qed

text \<open>
  The drawer \<open>thread_stats\<close> is opened on the loaded page and opened again: the second
  call closes it, whatever the server would have answered, and requests nothing.
\<close>

theorem open_same_drawer_closes_witness:
  "openDebugDrawer (\<lambda>url. Response True 200 ''<p>stats</p>'') (\<lambda>html. []) ''thread_stats''
     (openDebugDrawer (\<lambda>url. Response True 200 ''<p>stats</p>'') (\<lambda>html. []) ''thread_stats''
       \<lparr>currentDebugDrawer = None, drawer = Some [], overlay = Some [], content = Some [],
        navBtns = [(''thread_stats'', [''debug-nav-btn'']), (''run_tests'', [''debug-nav-btn''])],
        windowFns = (\<lambda>n. if n = ''stopThreadStatsRefresh'' then Some False else None),
        effects = []\<rparr>)
   = \<lparr>currentDebugDrawer = None, drawer = Some [], overlay = Some [],
      content = Some ''<p>stats</p>'',
      navBtns = [(''thread_stats'', [''debug-nav-btn'']), (''run_tests'', [''debug-nav-btn''])],
      windowFns = (\<lambda>n. if n = ''stopThreadStatsRefresh'' then Some False else None),
      effects = [Called ''stopThreadStatsRefresh'', Fetched ''/static/drawers/thread_stats.html'',
                 Timeout 200 ''startThreadstatsRefresh'', Called ''stopThreadStatsRefresh'']\<rparr>"
proof -
  let ?fetch = "\<lambda>url :: string. Response True 200 ''<p>stats</p>''"
  let ?scripts = "\<lambda>html :: string. [] :: string list"
  let ?st0 = "\<lparr>currentDebugDrawer = None, drawer = Some [], overlay = Some [], content = Some [],
        navBtns = [(''thread_stats'', [''debug-nav-btn'']), (''run_tests'', [''debug-nav-btn''])],
        windowFns = (\<lambda>n. if n = ''stopThreadStatsRefresh'' then Some False else None),
        effects = []\<rparr>"
  let ?st1 = "\<lparr>currentDebugDrawer = Some ''thread_stats'', drawer = Some [''open''],
      overlay = Some [''visible''], content = Some ''<p>stats</p>'',
      navBtns = [(''thread_stats'', [''debug-nav-btn'', ''active'']), (''run_tests'', [''debug-nav-btn''])],
      windowFns = (\<lambda>n. if n = ''stopThreadStatsRefresh'' then Some False else None),
      effects = [Called ''stopThreadStatsRefresh'', Fetched ''/static/drawers/thread_stats.html'',
                 Timeout 200 ''startThreadstatsRefresh'']\<rparr>"
  have "reachable ?st0" by (rule reachable.loaded) simp_all
  then have r: "reachable (openDebugDrawer ?fetch ?scripts ''thread_stats'' ?st0)"
    by (rule reachable.opened)
  have first: "openDebugDrawer ?fetch ?scripts ''thread_stats'' ?st0 = ?st1"
    by (simp add: openDebugDrawer_def stopAllDrawerRefreshes_def stopFunctions_def callStop_def
        classList_remove_def classList_add_def refreshFnName_thread_stats Let_def)
  have cur: "currentDebugDrawer (openDebugDrawer ?fetch ?scripts ''thread_stats'' ?st0) = Some ''thread_stats''"
    by (simp add: first)
  have "closeDebugDrawer ?st1 = \<lparr>currentDebugDrawer = None, drawer = Some [], overlay = Some [],
      content = Some ''<p>stats</p>'',
      navBtns = [(''thread_stats'', [''debug-nav-btn'']), (''run_tests'', [''debug-nav-btn''])],
      windowFns = (\<lambda>n. if n = ''stopThreadStatsRefresh'' then Some False else None),
      effects = [Called ''stopThreadStatsRefresh'', Fetched ''/static/drawers/thread_stats.html'',
                 Timeout 200 ''startThreadstatsRefresh'', Called ''stopThreadStatsRefresh'']\<rparr>"
    by (simp add: closeDebugDrawer_def stopAllDrawerRefreshes_def stopFunctions_def callStop_def
        classList_remove_def Let_def)
  with open_same_drawer_closes [OF r cur, of ?fetch ?scripts, THEN conjunct1] first
  show ?thesis by simp
qed

subsection \<open>Sanitised text in the chat markup\<close>

lemma sanitizeHTML_escape: "sanitizeHTML str = concat (map escapeChar str)"
  by (simp add: sanitizeHTML_def innerHTML_def setTextContent_def)

lemma escapeChar_no_angle: "CHR ''<'' \<notin> set (escapeChar c) \<and> CHR ''>'' \<notin> set (escapeChar c)"
  by (simp add: escapeChar_def)

lemma sanitizeHTML_no_angle:
  "CHR ''<'' \<notin> set (sanitizeHTML str)" "CHR ''>'' \<notin> set (sanitizeHTML str)"
  by (simp_all add: sanitizeHTML_escape escapeChar_no_angle)

lemma readMarkup_escapeChar:
  "readMarkup False (escapeChar c @ rest) = map_option ((#) c) (readMarkup False rest)"
  by (simp add: escapeChar_def)

lemma readMarkup_plain:
  "\<forall>x\<in>set u. x \<noteq> CHR ''<'' \<and> x \<noteq> CHR ''&'' \<Longrightarrow>
   readMarkup False (u @ rest) = map_option ((@) u) (readMarkup False rest)"
proof (induction u)
  case Nil
  show ?case by (simp add: option.map_ident)
next
  case (Cons c u)
  then have "readMarkup False (u @ rest) = map_option ((@) u) (readMarkup False rest)" by simp
  then show ?case using Cons.prems by (cases "readMarkup False rest") simp_all
qed

lemma readMarkup_in_tag:
  "CHR ''>'' \<notin> set u \<Longrightarrow> readMarkup True (u @ v) = readMarkup True v"
  by (induction u) auto

lemma upper_nami: "map toUpperCase ''nami'' = ''NAMI''"
  by code_simp

lemma upper_peepingnami: "map toUpperCase ''peepingnami'' = ''PEEPINGNAMI''"
  by code_simp

lemma upper_amp: "toUpperCase (CHR ''&'') = CHR ''&''"
  by code_simp
lemma upper_semi: "toUpperCase (CHR '';'') = CHR '';''"
  by code_simp
lemma upper_lt: "toUpperCase (CHR ''<'') = CHR ''<''"
  by code_simp

lemma toUpperCase_letter_not_special:
  "toUpperCase x \<in> set ''PEEPINGNAMI'' \<Longrightarrow> x \<noteq> CHR ''&'' \<and> x \<noteq> CHR ''<'' \<and> x \<noteq> CHR '';''"
  using upper_amp upper_semi upper_lt by auto

lemma readMarkup_escaped:
  "readMarkup False (concat (map escapeChar s) @ rest) = map_option ((@) s) (readMarkup False rest)"
proof (induction s)
  case Nil
  show ?case by (simp add: option.map_ident)
next
  case (Cons c s)
  have "readMarkup False (concat (map escapeChar (c # s)) @ rest)
      = readMarkup False (escapeChar c @ (concat (map escapeChar s) @ rest))" by simp
  also have "\<dots> = map_option ((#) c) (readMarkup False (concat (map escapeChar s) @ rest))"
    by (rule readMarkup_escapeChar)
  also have "\<dots> = map_option ((@) (c # s)) (readMarkup False rest)"
    by (cases "readMarkup False rest") (simp_all add: Cons.IH)
  finally show ?case .
qed

lemma upper_facts:
  "toUpperCase (CHR ''&'') = CHR ''&''" "toUpperCase (CHR '';'') = CHR '';''"
  "toUpperCase (CHR ''a'') = CHR ''A''" "toUpperCase (CHR ''m'') = CHR ''M''"
  "toUpperCase (CHR ''p'') = CHR ''P''" "toUpperCase (CHR ''n'') = CHR ''N''"
  "toUpperCase (CHR ''b'') = CHR ''B''" "toUpperCase (CHR ''s'') = CHR ''S''"
  "toUpperCase (CHR ''l'') = CHR ''L''" "toUpperCase (CHR ''t'') = CHR ''T''"
  "toUpperCase (CHR ''g'') = CHR ''G''" "toUpperCase (CHR ''i'') = CHR ''I''"
  "toUpperCase (CHR ''e'') = CHR ''E''"
  by code_simp+

lemma replaceMentions_escaped_special:
  "c = CHR ''&'' \<or> c = CHR 0xA0 \<or> c = CHR ''<'' \<or> c = CHR ''>'' \<Longrightarrow>
   replaceMentions (escapeChar c @ X) = escapeChar c @ replaceMentions X"
  by (auto simp add: escapeChar_def matchesAt_def upper_facts)

lemma escaped_plain_prefix:
  "k \<le> length (concat (map escapeChar m)) \<Longrightarrow>
   \<forall>x\<in>set (take k (concat (map escapeChar m))). x \<noteq> CHR ''&'' \<Longrightarrow>
   take k (concat (map escapeChar m)) = take k m
   \<and> drop k (concat (map escapeChar m)) = concat (map escapeChar (drop k m))
   \<and> k \<le> length m"
proof (induction m arbitrary: k)
  case Nil
  then show ?case by simp
next
  case (Cons c m)
  show ?case
  proof (cases k)
    case 0
    then show ?thesis by simp
  next
    case (Suc j)
    have plain: "escapeChar c = [c]"
    proof (rule ccontr)
      assume "escapeChar c \<noteq> [c]"
      then have "hd (escapeChar c) = CHR ''&'' \<and> escapeChar c \<noteq> []"
        by (auto simp add: escapeChar_def split: if_splits)
      then have "CHR ''&'' \<in> set (take k (concat (map escapeChar (c # m))))"
        using Suc by (cases "escapeChar c") auto
      with Cons.prems(2) show False by blast
    qed
    have j: "j \<le> length (concat (map escapeChar m))" using Cons.prems(1) Suc plain by simp
    have "\<forall>x\<in>set (take j (concat (map escapeChar m))). x \<noteq> CHR ''&''"
      using Cons.prems(2) Suc plain by simp
    from Cons.IH [OF j this] show ?thesis using Suc plain by simp
  qed
qed

lemma matchesAt_letters:
  assumes "matchesAt pattern t" and "set (map toUpperCase pattern) \<subseteq> set ''PEEPINGNAMI''"
  shows "\<forall>x\<in>set (take (length pattern) t). x \<noteq> CHR ''&'' \<and> x \<noteq> CHR ''<''"
proof
  fix x assume x: "x \<in> set (take (length pattern) t)"
  have eq: "map toUpperCase (take (length pattern) t) = map toUpperCase pattern"
    using assms(1) by (simp add: matchesAt_def)
  have "toUpperCase x \<in> set (map toUpperCase (take (length pattern) t))" using x by simp
  then have "toUpperCase x \<in> set (map toUpperCase pattern)" by (simp only: eq)
  then have "toUpperCase x \<in> set ''PEEPINGNAMI''" using assms(2) by blast
  then show "x \<noteq> CHR ''&'' \<and> x \<noteq> CHR ''<''"
    using toUpperCase_letter_not_special by blast
qed

lemma readMarkup_match:
  assumes m: "matchesAt pattern (concat (map escapeChar m))"
    and letters: "set (map toUpperCase pattern) \<subseteq> set ''PEEPINGNAMI''"
    and k: "k = length pattern"
    and ih: "readMarkup False (replaceMentions (concat (map escapeChar (drop k m))) @ v)
               = map_option ((@) (drop k m)) (readMarkup False v)"
  shows "readMarkup False (''<span class=\"highlight-word\">'' @ take k (concat (map escapeChar m))
            @ ''</span>'' @ replaceMentions (drop k (concat (map escapeChar m))) @ v)
       = map_option ((@) m) (readMarkup False v)"
proof -
  let ?t = "concat (map escapeChar m)"
  have plain: "\<forall>x\<in>set (take k ?t). x \<noteq> CHR ''&'' \<and> x \<noteq> CHR ''<''"
    using matchesAt_letters [OF m letters] k by simp
  have len: "k \<le> length ?t" using m k by (simp add: matchesAt_def)
  have amp: "\<forall>x\<in>set (take k ?t). x \<noteq> CHR ''&''" using plain by blast
  from escaped_plain_prefix [OF len amp]
  have tk: "take k ?t = take k m" and dr: "drop k ?t = concat (map escapeChar (drop k m))"
    by simp_all
  have p2: "\<forall>x\<in>set (take k m). x \<noteq> CHR ''<'' \<and> x \<noteq> CHR ''&''" using plain tk by auto
  have "readMarkup False (''<span class=\"highlight-word\">'' @ take k ?t
            @ ''</span>'' @ replaceMentions (drop k ?t) @ v)
      = readMarkup False (take k m @ (''</span>'' @ replaceMentions (concat (map escapeChar (drop k m))) @ v))"
    by (simp add: tk dr)
  also have "\<dots> = map_option ((@) (take k m))
        (readMarkup False (''</span>'' @ replaceMentions (concat (map escapeChar (drop k m))) @ v))"
    using p2 by (rule readMarkup_plain)
  also have "\<dots> = map_option ((@) (take k m)) (map_option ((@) (drop k m)) (readMarkup False v))"
    using ih by simp
  also have "\<dots> = map_option ((@) m) (readMarkup False v)"
    by (cases "readMarkup False v") simp_all
  finally show ?thesis .
qed

lemma readMarkup_replaceMentions:
  "readMarkup False (replaceMentions (concat (map escapeChar m)) @ v)
     = map_option ((@) m) (readMarkup False v)"
proof (induction "length m" arbitrary: m v rule: less_induct)
  case less
  show ?case
  proof (cases m)
    case Nil
    then show ?thesis by (cases "readMarkup False v") simp_all
  next
    case (Cons c m')
    have ih1: "readMarkup False (replaceMentions (concat (map escapeChar m')) @ v)
        = map_option ((@) m') (readMarkup False v)"
      using less [of m' v] Cons by simp
    show ?thesis
    proof (cases "c = CHR ''&'' \<or> c = CHR 0xA0 \<or> c = CHR ''<'' \<or> c = CHR ''>''")
      case True
      have "readMarkup False (replaceMentions (concat (map escapeChar m)) @ v)
          = readMarkup False (escapeChar c @ (replaceMentions (concat (map escapeChar m')) @ v))"
        using Cons replaceMentions_escaped_special [OF True] by simp
      also have "\<dots> = map_option ((#) c) (readMarkup False (replaceMentions (concat (map escapeChar m')) @ v))"
        by (rule readMarkup_escapeChar)
      also have "\<dots> = map_option ((@) m) (readMarkup False v)"
        using ih1 Cons by (cases "readMarkup False v") simp_all
      finally show ?thesis .
    next
      case False
      then have plain: "escapeChar c = [c]" by (simp add: escapeChar_def)
      let ?t = "concat (map escapeChar m)"
      have t: "?t = c # concat (map escapeChar m')" using Cons plain by simp
      show ?thesis
      proof (cases "matchesAt ''nami'' ?t")
        case True
        have ih: "readMarkup False (replaceMentions (concat (map escapeChar (drop 4 m))) @ v)
               = map_option ((@) (drop 4 m)) (readMarkup False v)"
          using less [of "drop 4 m" v] Cons by simp
        have "readMarkup False (replaceMentions ?t @ v)
            = readMarkup False (''<span class=\"highlight-word\">'' @ take 4 ?t
                @ ''</span>'' @ replaceMentions (drop 4 ?t) @ v)"
          using True unfolding t by simp
        also have "\<dots> = map_option ((@) m) (readMarkup False v)"
          using True _ _ ih by (rule readMarkup_match) (simp_all add: upper_facts)
        finally show ?thesis .
      next
        case no_nami: False
        show ?thesis
        proof (cases "matchesAt ''peepingnami'' ?t")
          case True
          have ih: "readMarkup False (replaceMentions (concat (map escapeChar (drop 11 m))) @ v)
               = map_option ((@) (drop 11 m)) (readMarkup False v)"
            using less [of "drop 11 m" v] Cons by simp
          have "readMarkup False (replaceMentions ?t @ v)
              = readMarkup False (''<span class=\"highlight-word\">'' @ take 11 ?t
                  @ ''</span>'' @ replaceMentions (drop 11 ?t) @ v)"
            using True no_nami unfolding t by simp
          also have "\<dots> = map_option ((@) m) (readMarkup False v)"
            using True _ _ ih by (rule readMarkup_match) (simp_all add: upper_facts)
          finally show ?thesis .
        next
          case False
          have "readMarkup False (replaceMentions ?t @ v)
              = readMarkup False (c # (replaceMentions (concat (map escapeChar m')) @ v))"
            using False no_nami unfolding t by simp
          also have "\<dots> = map_option ((#) c) (readMarkup False (replaceMentions (concat (map escapeChar m')) @ v))"
            using \<open>\<not> (c = CHR ''&'' \<or> c = CHR 0xA0 \<or> c = CHR ''<'' \<or> c = CHR ''>'')\<close> by simp
          also have "\<dots> = map_option ((@) m) (readMarkup False v)"
            using ih1 Cons by (cases "readMarkup False v") simp_all
          finally show ?thesis .
        qed
      qed
    qed
  qed
qed

lemma shownText_sanitizeHTML: "shownText (sanitizeHTML str) = Some str"
  using readMarkup_escaped [of str "[]"] by (simp add: shownText_def sanitizeHTML_escape)

lemma shownText_twitch:
  "shownText (twitch_message_html d)
     = Some ([CHR 0x0A] @ ''        '' @ [CHR 0x0A] @ ''            '' @ d_username d
       @ '': '' @ [CHR 0x0A] @ ''            '' @ d_message d @ [CHR 0x0A] @ ''        '')"
  by (simp add: shownText_def twitch_message_html_def highlightMentions_def Let_def
      sanitizeHTML_escape readMarkup_escaped readMarkup_replaceMentions)

lemma shownText_chat:
  "shownText (chatHTML r)
     = Some ([CHR 0x0A] @ ''        '' @ [CHR 0x0A] @ ''            Nami: '' @ [CHR 0x0A] @ ''            ''
       @ d_reply r @ [CHR 0x0A] @ ''        '')"
  by (simp add: shownText_def chatHTML_def Let_def sanitizeHTML_escape readMarkup_escaped)

lemma shownText_nami:
  assumes "\<forall>x. CHR ''>'' \<notin> set (enc x)"
  shows "shownText (namiHTML enc siren page r)
     = map_option ((@) ([CHR 0x0A] @ ''        Nami: '' @ d_reply r))
         (shownText (censorshipIndicator siren r @ [CHR 0x0A]
           @ ''        <span class=\"ml-2 opacity-0 group-hover:opacity-100 text-xs text-gray-400 align-middle\">''
           @ page @ '' Context</span></div>''))"
proof -
  let ?rest = "censorshipIndicator siren r @ [CHR 0x0A]
           @ ''        <span class=\"ml-2 opacity-0 group-hover:opacity-100 text-xs text-gray-400 align-middle\">''
           @ page @ '' Context</span></div>''"
  have "shownText (namiHTML enc siren page r)
      = map_option ((@) ([CHR 0x0A] @ ''        Nami: '' @ d_reply r)) (readMarkup False ?rest)"
    using assms
    by (cases "readMarkup False ?rest")
       (simp_all add: shownText_def namiHTML_def Let_def sanitizeHTML_escape readMarkup_escaped
          readMarkup_in_tag)
  then show ?thesis by (simp only: shownText_def)
qed

text \<open>
  Claim C8. \<open>sanitizeHTML\<close> returns its argument with \<open>&\<close>, \<open><\<close>, \<open>>\<close> and the no-break
  space escaped, the serialisation of a text node: the result holds no \<open><\<close> and no
  \<open>>\<close>, and read as markup it shows the argument. The user name and the message of a
  chat line and the reply of the bot go through \<open>sanitizeHTML\<close> into the markup the
  listeners append (the message with its mentions wrapped in \<open>span\<close>s, which never cut
  a character reference): what the markup of a chat line, of the bot's chat line and of
  the reply line shows is the template's own text with the user name, the message and
  the reply as they were sent, whatever markup they contain. For the reply line this is
  said up to what follows the reply (the censorship note and the context link), and for
  an \<open>encodeURIComponent\<close> that writes no \<open>>\<close>, as the browser's does: the copies of
  the reply, the prompt and the reason in the \<open>data-\<close> attributes go through it.
\<close>

theorem sanitized_text_is_shown_literally:
  assumes "\<forall>x. CHR ''>'' \<notin> set (encodeURIComponent x)"
  shows "sanitizeHTML str = concat (map escapeChar str)
       \<and> CHR ''<'' \<notin> set (sanitizeHTML str) \<and> CHR ''>'' \<notin> set (sanitizeHTML str)
       \<and> shownText (sanitizeHTML str) = Some str
       \<and> shownText (twitch_message_html d)
           = Some ([CHR 0x0A] @ ''        '' @ [CHR 0x0A] @ ''            '' @ d_username d
                   @ '': '' @ [CHR 0x0A] @ ''            '' @ d_message d @ [CHR 0x0A] @ ''        '')
       \<and> shownText (chatHTML r)
           = Some ([CHR 0x0A] @ ''        '' @ [CHR 0x0A] @ ''            Nami: '' @ [CHR 0x0A]
                   @ ''            '' @ d_reply r @ [CHR 0x0A] @ ''        '')
       \<and> shownText (namiHTML encodeURIComponent siren page r)
           = map_option ((@) ([CHR 0x0A] @ ''        Nami: '' @ d_reply r))
               (shownText (censorshipIndicator siren r @ [CHR 0x0A]
                 @ ''        <span class=\"ml-2 opacity-0 group-hover:opacity-100 text-xs text-gray-400 align-middle\">''
                 @ page @ '' Context</span></div>''))"
  using sanitizeHTML_escape [of str] sanitizeHTML_no_angle [of str] shownText_sanitizeHTML [of str]
    shownText_twitch [of d] shownText_chat [of r] shownText_nami [OF assms, of siren page r]
  by (simp only: simp_thms)

text \<open>
  A user name, a message and a reply that contain markup.
\<close>

theorem sanitized_text_is_shown_literally_witness:
  "sanitizeHTML ''<b>&'' = ''&lt;b&gt;&amp;''
   \<and> shownText (sanitizeHTML ''<b>&'') = Some ''<b>&''
   \<and> shownText (twitch_message_html \<lparr>d_username = ''<i>bob'', d_message = ''hi nami <script>''\<rparr>)
       = Some ([CHR 0x0A] @ ''        '' @ [CHR 0x0A] @ ''            <i>bob: '' @ [CHR 0x0A]
               @ ''            hi nami <script>'' @ [CHR 0x0A] @ ''        '')
   \<and> shownText (chatHTML \<lparr>d_reply = ''a < b & c'', d_prompt = None, is_censored = False,
          censorship_reason = None, filtered_area = None\<rparr>)
       = Some ([CHR 0x0A] @ ''        '' @ [CHR 0x0A] @ ''            Nami: '' @ [CHR 0x0A]
               @ ''            a < b & c'' @ [CHR 0x0A] @ ''        '')
   \<and> shownText (namiHTML (\<lambda>s. concat (map (\<lambda>c. if c = CHR ''>'' then ''%3E'' else [c]) s)) ''!'' ''#''
          \<lparr>d_reply = ''a < b & c'', d_prompt = None, is_censored = False,
           censorship_reason = None, filtered_area = None\<rparr>)
       = Some ([CHR 0x0A] @ ''        Nami: a < b & c'' @ [CHR 0x0A] @ ''        # Context'')"
proof -
  let ?enc = "\<lambda>s. concat (map (\<lambda>c. if c = CHR ''>'' then ''%3E'' else [c]) s)"
  let ?d = "\<lparr>d_username = ''<i>bob'', d_message = ''hi nami <script>''\<rparr>"
  let ?r = "\<lparr>d_reply = ''a < b & c'', d_prompt = None, is_censored = False,
           censorship_reason = None, filtered_area = None\<rparr>"
  have h: "\<forall>x. CHR ''>'' \<notin> set (?enc x)" by auto
  from sanitized_text_is_shown_literally [OF h, of "''<b>&''" ?d ?r "''!''" "''#''"]
  show ?thesis by (simp add: escapeChar_def shownText_def censorshipIndicator_def)
qed

end
